theory Spec2Isabelle
  imports Complex_Main
begin

section \<open>The context graph of the decoder (decoder/context\_graph.cc)\<close>

text \<open>
  The theory embeds the two member functions of \<open>wenet::ContextGraph\<close>:
  \<open>BuildContextGraph\<close>, which compiles a list of phrases into a weighted acceptor, and
  \<open>GetNextContextStates\<close>, which advances a map of active states by one token.

  Conventions of the embedding.
  \<^item> \<open>float\<close> values are modelled as \<open>real\<close>: sums, products and comparisons are the exact
    ones. \<open>std::max a b\<close> is written out as the library defines it, \<open>if a < b then b else a\<close>.
  \<^item> State ids and labels are \<open>int\<close>, as in OpenFst (\<open>StateId = int\<close>, \<open>Label = int\<close>).
  \<^item> \<open>std::map<int, float>\<close> is an association list kept in ascending key order; iterating the
    map is iterating the list.
  \<^item> Reading a state that the automaton does not have is undefined behaviour of the library;
    the model returns the error \<open>InvalidState\<close> there.
\<close>

subsection \<open>The OpenFst interface used by the code\<close>

record StdArc =
  ilabel :: int
  olabel :: int
  weight :: real
  nextstate :: int

text \<open>Tropical weights: \<open>Weight::Zero()\<close> is the weight of a state that is not final,
  \<open>Weight::One()\<close> has the value \<open>0\<close>.\<close>

datatype TropicalWeight = Weight_Zero | Weight real

definition Weight_One :: TropicalWeight where
  "Weight_One = Weight 0"

record VectorState =
  st_final :: TropicalWeight
  st_arcs :: "StdArc list"

record StdVectorFst =
  fst_start :: int
  fst_states :: "VectorState list"

datatype error = NullSymbolTable | InvalidState

definition new_fst :: StdVectorFst where
  "new_fst = \<lparr>fst_start = - 1, fst_states = []\<rparr>"

definition NumStates :: "StdVectorFst \<Rightarrow> nat" where
  "NumStates g = length (fst_states g)"

definition valid_state :: "StdVectorFst \<Rightarrow> int \<Rightarrow> bool" where
  "valid_state g s \<longleftrightarrow> 0 \<le> s \<and> s < int (NumStates g)"

definition AddState :: "StdVectorFst \<Rightarrow> int \<times> StdVectorFst" where
  "AddState g =
     (int (NumStates g),
      g\<lparr>fst_states := fst_states g @ [\<lparr>st_final = Weight_Zero, st_arcs = []\<rparr>]\<rparr>)"

definition SetStart :: "int \<Rightarrow> StdVectorFst \<Rightarrow> StdVectorFst" where
  "SetStart s g = g\<lparr>fst_start := s\<rparr>"

text \<open>\<open>SetFinal\<close> and \<open>AddArc\<close> are only defined by the library on a state that exists; the
  builder below calls them on states it has obtained from \<open>AddState\<close>. On any other id the
  model leaves the automaton as it is.\<close>

definition SetFinal :: "int \<Rightarrow> TropicalWeight \<Rightarrow> StdVectorFst \<Rightarrow> StdVectorFst" where
  "SetFinal s w g =
     (if valid_state g s
      then g\<lparr>fst_states := (fst_states g)[nat s := (fst_states g ! nat s)\<lparr>st_final := w\<rparr>]\<rparr>
      else g)"

definition AddArc :: "int \<Rightarrow> StdArc \<Rightarrow> StdVectorFst \<Rightarrow> StdVectorFst" where
  "AddArc s a g =
     (if valid_state g s
      then g\<lparr>fst_states :=
               (fst_states g)[nat s := (fst_states g ! nat s)
                                         \<lparr>st_arcs := st_arcs (fst_states g ! nat s) @ [a]\<rparr>]\<rparr>
      else g)"

definition Final :: "StdVectorFst \<Rightarrow> int \<Rightarrow> error + TropicalWeight" where
  "Final g s =
     (if valid_state g s then Inr (st_final (fst_states g ! nat s)) else Inl InvalidState)"

definition Arcs :: "StdVectorFst \<Rightarrow> int \<Rightarrow> error + StdArc list" where
  "Arcs g s =
     (if valid_state g s then Inr (st_arcs (fst_states g ! nat s)) else Inl InvalidState)"

subsection \<open>Strings\<close>

text \<open>A \<open>std::string\<close> is its list of bytes. The two helpers of utils/string that the builder
  calls are not among the sources; the spec says of a phrase that it is ``a string, trimmed
  of surrounding whitespace, tokenized into an ordered sequence of elementary tokens
  (character-level in this design)''.\<close>

text \<open>Modelled from the spec: \<open>Trim\<close> (utils/string, not among the sources) removes the
  white space at both ends of the string: blank, tab, line feed, vertical tab, form feed and
  carriage return.\<close>

definition is_space :: "char \<Rightarrow> bool" where
  "is_space c \<longleftrightarrow> c \<in> set [CHR '' '', CHR 0x09, CHR 0x0A, CHR 0x0B, CHR 0x0C, CHR 0x0D]"

definition Trim :: "string \<Rightarrow> string" where
  "Trim s = rev (dropWhile is_space (rev (dropWhile is_space s)))"

text \<open>Modelled from the spec: \<open>SplitUTF8StringToChars\<close> (utils/string, not among the
  sources) cuts the bytes into UTF-8 characters, a character being one byte together with
  the continuation bytes (\<open>0x80\<close> to \<open>0xBF\<close>) that follow it.\<close>

definition is_continuation :: "char \<Rightarrow> bool" where
  "is_continuation c \<longleftrightarrow> 128 \<le> (of_char c :: nat) \<and> (of_char c :: nat) < 192"

function SplitUTF8StringToChars :: "string \<Rightarrow> string list" where
  "SplitUTF8StringToChars [] = []"
| "SplitUTF8StringToChars (c # cs) =
     (c # takeWhile is_continuation cs) # SplitUTF8StringToChars (dropWhile is_continuation cs)"
  by pat_completeness auto
termination
  by (relation "measure length") (auto simp: less_Suc_eq_le length_dropWhile_le)

subsection \<open>The object and its configuration\<close>

text \<open>Modelled from the spec: the header decoder/context\_graph.h, which declares
  \<open>ContextGraphConfig\<close> and the members of \<open>ContextGraph\<close>, is not among the sources. The
  spec names the options: ``\<open>max_contexts\<close> -- cap on number of compiled phrases;
  \<open>max_context_length\<close> -- cap on tokens per phrase; \<open>context_score\<close> -- per-token bonus
  weight''. The code compares \<open>max_contexts\<close> with its \<open>int\<close> counter and
  \<open>max_context_length\<close> with the size of a string, so the first is an \<open>int\<close> and the second a
  natural number here; \<open>context_score\<close> is a \<open>float\<close> weight. The members \<open>config_\<close>,
  \<open>symbol_table_\<close> and \<open>graph_\<close> are the fields of the record \<open>ContextGraph\<close>; a null pointer
  is \<open>None\<close>.\<close>

record ContextGraphConfig =
  max_contexts :: int
  max_context_length :: nat
  context_score :: real

type_synonym SymbolTable = "string \<Rightarrow> int"

record ContextGraph =
  cg_config :: ContextGraphConfig
  cg_symbol_table :: "SymbolTable option"
  cg_graph :: "StdVectorFst option"

subsection \<open>BuildContextGraph\<close>

text \<open>The loop over the characters of one phrase (lines 46 to 64). \<open>n\<close> is \<open>chars.size()\<close>,
  the list is what is left of \<open>chars\<close> from index \<open>i\<close> on; the body runs only when a character
  is left, so \<open>n - 1\<close> is never taken of 0. A \<open>break\<close> returns the automaton as it is.\<close>

fun add_chars ::
  "ContextGraphConfig \<Rightarrow> SymbolTable \<Rightarrow> int \<Rightarrow> int \<Rightarrow> nat \<Rightarrow> string list \<Rightarrow> nat \<Rightarrow> int \<Rightarrow>
   StdVectorFst \<Rightarrow> StdVectorFst" where
  "add_chars cfg tbl start_state final_state n [] i prev_state ofst = ofst"
| "add_chars cfg tbl start_state final_state n (ch # rest) i prev_state ofst =
     (let word_id = tbl ch in
      if word_id = - 1 then ofst
      else
        let (next_state, ofst1) = (if i < n - 1 then AddState ofst else (final_state, ofst));
            ofst2 = (if i > 0
                     then AddArc prev_state
                            \<lparr>ilabel = 0, olabel = 0,
                             weight = - context_score cfg * real i,
                             nextstate = start_state\<rparr> ofst1
                     else ofst1);
            ofst3 = AddArc prev_state
                      \<lparr>ilabel = word_id, olabel = word_id,
                       weight = context_score cfg, nextstate = next_state\<rparr> ofst2
        in add_chars cfg tbl start_state final_state n rest (i + 1) next_state ofst3)"

text \<open>The body of the loop over the phrases, for a phrase that is neither skipped nor beyond
  the count (lines 42 to 64).\<close>

definition add_context ::
  "ContextGraphConfig \<Rightarrow> SymbolTable \<Rightarrow> int \<Rightarrow> int \<Rightarrow> string \<Rightarrow> StdVectorFst \<Rightarrow> StdVectorFst" where
  "add_context cfg tbl start_state final_state context ofst =
     (let chars = SplitUTF8StringToChars (Trim context)
      in add_chars cfg tbl start_state final_state (length chars) chars 0 start_state ofst)"

text \<open>The loop over the phrases (lines 33 to 65): \<open>continue\<close> on a long phrase, \<open>break\<close>
  once the counter has passed \<open>max_contexts\<close>.\<close>

fun add_contexts ::
  "ContextGraphConfig \<Rightarrow> SymbolTable \<Rightarrow> int \<Rightarrow> int \<Rightarrow> string list \<Rightarrow> int \<Rightarrow>
   StdVectorFst \<Rightarrow> StdVectorFst" where
  "add_contexts cfg tbl start_state final_state [] count ofst = ofst"
| "add_contexts cfg tbl start_state final_state (context # rest) count ofst =
     (if length context > max_context_length cfg
      then add_contexts cfg tbl start_state final_state rest count ofst
      else if count + 1 > max_contexts cfg then ofst
      else add_contexts cfg tbl start_state final_state rest (count + 1)
             (add_context cfg tbl start_state final_state context ofst))"

text \<open>Lines 24 to 65: the automaton before it is determinized.\<close>

definition build_ofst :: "ContextGraphConfig \<Rightarrow> SymbolTable \<Rightarrow> string list \<Rightarrow> StdVectorFst" where
  "build_ofst cfg tbl query_contexts =
     (let (start_state, ofst1) = AddState new_fst;
          (final_state, ofst2) = AddState ofst1;
          ofst3 = SetStart start_state ofst2;
          ofst4 = SetFinal final_state Weight_One ofst3
      in add_contexts cfg tbl start_state final_state query_contexts 0 ofst4)"

text \<open>\<open>fst::Determinize\<close> is a library transform; it is a parameter of the model, and the
  properties of the builder below are about \<open>build_ofst\<close>, the automaton that is handed to
  it. A null \<open>symbol_table\<close> fails the \<open>CHECK\<close> of line 17, which aborts.\<close>

definition BuildContextGraph ::
  "(StdVectorFst \<Rightarrow> StdVectorFst) \<Rightarrow> string list \<Rightarrow> SymbolTable option \<Rightarrow> ContextGraph \<Rightarrow>
   error + ContextGraph" where
  "BuildContextGraph Determinize query_contexts symbol_table this =
     (case symbol_table of
        None \<Rightarrow> Inl NullSymbolTable
      | Some tbl \<Rightarrow>
          if query_contexts = []
          then Inr (this\<lparr>cg_symbol_table := symbol_table, cg_graph := None\<rparr>)
          else Inr (this\<lparr>cg_symbol_table := symbol_table,
                         cg_graph := Some (Determinize
                                            (build_ofst (cg_config this) tbl query_contexts))\<rparr>))"

subsection \<open>GetNextContextStates\<close>

type_synonym StateMap = "(int \<times> real) list"

definition std_max :: "real \<Rightarrow> real \<Rightarrow> real" where
  "std_max a b = (if a < b then b else a)"

text \<open>\<open>m.find(k)\<close>, with \<open>None\<close> for \<open>m.end()\<close>, and \<open>m[k] = v\<close> on the ordered map.\<close>

definition map_find :: "StateMap \<Rightarrow> int \<Rightarrow> real option" where
  "map_find m k = map_of m k"

fun map_assign :: "int \<Rightarrow> real \<Rightarrow> StateMap \<Rightarrow> StateMap" where
  "map_assign k v [] = [(k, v)]"
| "map_assign k v (p # m) =
     (if fst p = k then (k, v) # m
      else if k < fst p then (k, v) # p # m
      else p # map_assign k v m)"

text \<open>The body of the loop over the arcs of one active state (lines 86 to 103). The state of
  the loops is \<open>(partial_match_score, full_match_score, next_active_states)\<close>.\<close>

type_synonym MatchState = "real \<times> real \<times> StateMap"

fun visit_arc :: "StdVectorFst \<Rightarrow> int \<Rightarrow> real \<Rightarrow> StdArc \<Rightarrow> MatchState \<Rightarrow> error + MatchState" where
  "visit_arc g word_id score a (partial_match_score, full_match_score, next_active_states) =
     (if ilabel a = word_id \<or> ilabel a = 0 then
        (let context_score = score + weight a;
             partial_match_score' = std_max partial_match_score context_score
         in case Final g (nextstate a) of
              Inl e \<Rightarrow> Inl e
            | Inr w \<Rightarrow>
                if w = Weight_One
                then Inr (partial_match_score', std_max full_match_score context_score,
                          next_active_states)
                else (case map_find next_active_states (nextstate a) of
                        None \<Rightarrow>
                          Inr (partial_match_score', full_match_score,
                               map_assign (nextstate a) context_score next_active_states)
                      | Some v \<Rightarrow>
                          if v < context_score
                          then Inr (partial_match_score', full_match_score,
                                    map_assign (nextstate a) context_score next_active_states)
                          else Inr (partial_match_score', full_match_score,
                                    next_active_states)))
      else Inr (partial_match_score, full_match_score, next_active_states))"

fun visit_arcs :: "StdVectorFst \<Rightarrow> int \<Rightarrow> real \<Rightarrow> StdArc list \<Rightarrow> MatchState \<Rightarrow> error + MatchState" where
  "visit_arcs g word_id score [] ms = Inr ms"
| "visit_arcs g word_id score (a # as) ms =
     (case visit_arc g word_id score a ms of
        Inl e \<Rightarrow> Inl e
      | Inr ms' \<Rightarrow> visit_arcs g word_id score as ms')"

fun visit_states :: "StdVectorFst \<Rightarrow> int \<Rightarrow> StateMap \<Rightarrow> MatchState \<Rightarrow> error + MatchState" where
  "visit_states g word_id [] ms = Inr ms"
| "visit_states g word_id ((state, score) # ps) ms =
     (case Arcs g state of
        Inl e \<Rightarrow> Inl e
      | Inr as \<Rightarrow>
          (case visit_arcs g word_id score as ms of
             Inl e \<Rightarrow> Inl e
           | Inr ms' \<Rightarrow> visit_states g word_id ps ms'))"

text \<open>The result is the returned pair of scores and \<open>next_active_states\<close>, which the caller
  passes by reference, as the call leaves it.\<close>

definition GetNextContextStates ::
  "ContextGraph \<Rightarrow> StateMap \<Rightarrow> int \<Rightarrow> StateMap \<Rightarrow> error + ((real \<times> real) \<times> StateMap)" where
  "GetNextContextStates this active_states word_id next_active_states =
     (case cg_graph this of
        None \<Rightarrow> Inr ((0, 0), next_active_states)
      | Some g \<Rightarrow>
          if active_states = [] then Inr ((0, 0), next_active_states)
          else (case visit_states g word_id active_states (0, 0, next_active_states) of
                  Inl e \<Rightarrow> Inl e
                | Inr (partial_match_score, full_match_score, next_active_states') \<Rightarrow>
                    Inr ((partial_match_score, full_match_score), next_active_states')))"

text \<open>An automaton is well formed when every arc leads to one of its states; then a call
  on active states of the automaton reads no state that is missing.\<close>

definition wf_fst :: "StdVectorFst \<Rightarrow> bool" where
  "wf_fst g \<longleftrightarrow>
     (\<forall>st \<in> set (fst_states g). \<forall>a \<in> set (st_arcs st). valid_state g (nextstate a))"

subsection \<open>Notions used to state the properties of the builder\<close>

text \<open>The automaton of line 30, before the loop over the phrases: the start state 0 and the
  final state 1, without arcs.\<close>

definition two_state_fst :: StdVectorFst where
  "two_state_fst =
     \<lparr>fst_start = 0,
      fst_states = [\<lparr>st_final = Weight_Zero, st_arcs = []\<rparr>,
                    \<lparr>st_final = Weight_One, st_arcs = []\<rparr>]\<rparr>"

text \<open>Appending arcs to one state, and appending states: what a run of \<open>AddArc\<close> on one
  state and a run of \<open>AddState\<close> amount to.\<close>

definition add_arcs :: "int \<Rightarrow> StdArc list \<Rightarrow> StdVectorFst \<Rightarrow> StdVectorFst" where
  "add_arcs s as g =
     g\<lparr>fst_states :=
         (fst_states g)[nat s := (fst_states g ! nat s)
                                   \<lparr>st_arcs := st_arcs (fst_states g ! nat s) @ as\<rparr>]\<rparr>"

definition add_states :: "VectorState list \<Rightarrow> StdVectorFst \<Rightarrow> StdVectorFst" where
  "add_states sts g = g\<lparr>fst_states := fst_states g @ sts\<rparr>"

text \<open>\<open>extends s g g'\<close>: the automaton \<open>g'\<close> is \<open>g\<close> with more arcs out of state \<open>s\<close> and
  with more states.\<close>

definition extends :: "int \<Rightarrow> StdVectorFst \<Rightarrow> StdVectorFst \<Rightarrow> bool" where
  "extends s g g' \<longleftrightarrow> (\<exists>as sts. g' = add_states sts (add_arcs s as g))"

text \<open>The characters of a phrase that come before the first one missing from the
  vocabulary.\<close>

definition resolved :: "SymbolTable \<Rightarrow> string list \<Rightarrow> string list" where
  "resolved tbl chars = takeWhile (\<lambda>ch. tbl ch \<noteq> - 1) chars"

text \<open>The arcs out of the state that a phrase reaches after \<open>j\<close> characters, when the loop
  over its characters has started at index \<open>i\<close> on an automaton with \<open>N\<close> states, \<open>n\<close> is the
  number of characters and \<open>pre\<close> are the resolved characters from \<open>i\<close> on: the escape arc
  (for \<open>j > 0\<close>) and the arc on character \<open>j\<close>, as long as \<open>j\<close> is a resolved character.
  \<open>chain_states\<close> are the states that the loop adds for a phrase.\<close>

definition chain_arcs ::
  "ContextGraphConfig \<Rightarrow> SymbolTable \<Rightarrow> int \<Rightarrow> int \<Rightarrow> nat \<Rightarrow> nat \<Rightarrow> nat \<Rightarrow> string list \<Rightarrow> nat \<Rightarrow>
   StdArc list" where
  "chain_arcs cfg tbl start_state final_state n N i pre j =
     (if j < i + length pre
      then (if 0 < j
            then [\<lparr>ilabel = 0, olabel = 0, weight = - context_score cfg * real j,
                   nextstate = start_state\<rparr>]
            else [])
           @ [\<lparr>ilabel = tbl (pre ! (j - i)), olabel = tbl (pre ! (j - i)),
               weight = context_score cfg,
               nextstate = (if j < n - 1 then int (N + (j - i)) else final_state)\<rparr>]
      else [])"

definition chain_states ::
  "ContextGraphConfig \<Rightarrow> SymbolTable \<Rightarrow> int \<Rightarrow> int \<Rightarrow> nat \<Rightarrow> string list \<Rightarrow> VectorState list" where
  "chain_states cfg tbl start_state final_state N chars =
     map (\<lambda>j. \<lparr>st_final = Weight_Zero,
                st_arcs = chain_arcs cfg tbl start_state final_state (length chars) N 0
                            (resolved tbl chars) j\<rparr>)
         [Suc 0 ..< Suc 0 + min (length (resolved tbl chars)) (length chars - 1)]"

subsection \<open>A running example\<close>

text \<open>The vocabulary has the ids 3, 4 and 5 for the characters c, a and t; the bonus is 1.
  \<open>cat_fst\<close> is the acceptor of the single phrase ``cat'': state 0 is the start state, state 1
  the final state, states 2 and 3 are reached after ``c'' and ``ca''.\<close>

definition cat_table :: SymbolTable where
  "cat_table ch =
     (if ch = ''c'' then 3 else if ch = ''a'' then 4 else if ch = ''t'' then 5 else - 1)"

definition unit_config :: ContextGraphConfig where
  "unit_config = \<lparr>max_contexts = 2, max_context_length = 5, context_score = 1\<rparr>"

definition cat_fst :: StdVectorFst where
  "cat_fst =
     \<lparr>fst_start = 0,
      fst_states =
        [\<lparr>st_final = Weight_Zero,
          st_arcs = [\<lparr>ilabel = 3, olabel = 3, weight = 1, nextstate = 2\<rparr>]\<rparr>,
         \<lparr>st_final = Weight_One, st_arcs = []\<rparr>,
         \<lparr>st_final = Weight_Zero,
          st_arcs = [\<lparr>ilabel = 0, olabel = 0, weight = - 1, nextstate = 0\<rparr>,
                     \<lparr>ilabel = 4, olabel = 4, weight = 1, nextstate = 3\<rparr>]\<rparr>,
         \<lparr>st_final = Weight_Zero,
          st_arcs = [\<lparr>ilabel = 0, olabel = 0, weight = - 2, nextstate = 0\<rparr>,
                     \<lparr>ilabel = 5, olabel = 5, weight = 1, nextstate = 1\<rparr>]\<rparr>]\<rparr>"

text \<open>\<open>cax_cat_fst\<close> is the acceptor of the two phrases ``cax'' and ``cat'': the character x is
  not in the vocabulary, so the first phrase stops in state 3, after ``ca''.\<close>

definition cax_cat_fst :: StdVectorFst where
  "cax_cat_fst =
     \<lparr>fst_start = 0,
      fst_states =
        [\<lparr>st_final = Weight_Zero,
          st_arcs = [\<lparr>ilabel = 3, olabel = 3, weight = 1, nextstate = 2\<rparr>,
                     \<lparr>ilabel = 3, olabel = 3, weight = 1, nextstate = 4\<rparr>]\<rparr>,
         \<lparr>st_final = Weight_One, st_arcs = []\<rparr>,
         \<lparr>st_final = Weight_Zero,
          st_arcs = [\<lparr>ilabel = 0, olabel = 0, weight = - 1, nextstate = 0\<rparr>,
                     \<lparr>ilabel = 4, olabel = 4, weight = 1, nextstate = 3\<rparr>]\<rparr>,
         \<lparr>st_final = Weight_Zero, st_arcs = []\<rparr>,
         \<lparr>st_final = Weight_Zero,
          st_arcs = [\<lparr>ilabel = 0, olabel = 0, weight = - 1, nextstate = 0\<rparr>,
                     \<lparr>ilabel = 4, olabel = 4, weight = 1, nextstate = 5\<rparr>]\<rparr>,
         \<lparr>st_final = Weight_Zero,
          st_arcs = [\<lparr>ilabel = 0, olabel = 0, weight = - 2, nextstate = 0\<rparr>,
                     \<lparr>ilabel = 5, olabel = 5, weight = 1, nextstate = 1\<rparr>]\<rparr>]\<rparr>"

definition cat_object :: ContextGraph where
  "cat_object =
     \<lparr>cg_config = unit_config, cg_symbol_table = Some cat_table, cg_graph = Some cat_fst\<rparr>"

definition no_object :: ContextGraph where
  "no_object = \<lparr>cg_config = unit_config, cg_symbol_table = None, cg_graph = None\<rparr>"

section \<open>Properties of GetNextContextStates\<close>

subsection \<open>The ordered map\<close>

lemma map_find_assign_same: "map_find (map_assign k v m) k = Some v"
  by (induction m) (auto simp: map_find_def)

lemma map_find_assign_other: "j \<noteq> k \<Longrightarrow> map_find (map_assign k v m) j = map_find m j"
  by (induction m) (auto simp: map_find_def)

lemma map_find_assign: "map_find (map_assign k v m) = (map_find m)(k \<mapsto> v)"
  by (rule ext) (simp add: map_find_assign_same map_find_assign_other)

lemma keys_map_assign: "fst ` set (map_assign k v m) = insert k (fst ` set m)"
  by (induction m) auto

lemma sorted_map_assign:
  "sorted_wrt (<) (map fst m) \<Longrightarrow> sorted_wrt (<) (map fst (map_assign k v m))"
  by (induction m) (auto simp: keys_map_assign [simplified])

lemma std_max_nonneg: "0 \<le> a \<Longrightarrow> 0 \<le> std_max a b"
  by (simp add: std_max_def)

lemma std_max_is_max: "std_max a b = max a b"
  by (simp add: std_max_def max_def)

subsection \<open>Invariants of the two loops\<close>

text \<open>A property of the loop state that every visit of an arc preserves is preserved by
  the whole traversal.\<close>

lemma visit_arcs_invariant:
  assumes step: "\<And>sc a ms ms'. visit_arc g w sc a ms = Inr ms' \<Longrightarrow> P ms \<Longrightarrow> P ms'"
  shows "visit_arcs g w score as ms = Inr ms' \<Longrightarrow> P ms \<Longrightarrow> P ms'"
proof (induction as arbitrary: ms)
  case Nil
  then show ?case by simp
next
  case (Cons a as)
  from Cons.prems(1) obtain ms1
    where one: "visit_arc g w score a ms = Inr ms1"
      and more: "visit_arcs g w score as ms1 = Inr ms'"
    by (auto split: sum.splits)
  from step [OF one Cons.prems(2)] have "P ms1" .
  with Cons.IH [OF more] show ?case .
qed

lemma visit_states_invariant:
  assumes step: "\<And>sc a ms ms'. visit_arc g w sc a ms = Inr ms' \<Longrightarrow> P ms \<Longrightarrow> P ms'"
  shows "visit_states g w act ms = Inr ms' \<Longrightarrow> P ms \<Longrightarrow> P ms'"
proof (induction act arbitrary: ms)
  case Nil
  then show ?case by simp
next
  case (Cons sp act)
  obtain state score where sp: "sp = (state, score)" by (cases sp)
  from Cons.prems(1) sp obtain as ms1
    where arcs: "visit_arcs g w score as ms = Inr ms1"
      and more: "visit_states g w act ms1 = Inr ms'"
    by (auto split: sum.splits)
  have "P ms1"
    by (rule visit_arcs_invariant [of g w P, OF step arcs Cons.prems(2)])
  with Cons.IH [OF more] show ?case .
qed

lemma visit_arc_scores:
  assumes "visit_arc g w sc a ms = Inr ms'" and "0 \<le> fst ms \<and> 0 \<le> fst (snd ms)"
  shows "0 \<le> fst ms' \<and> 0 \<le> fst (snd ms')"
proof -
  obtain p f nx where ms: "ms = (p, f, nx)" by (cases ms)
  with assms show ?thesis
    by (auto simp: Let_def std_max_nonneg split: if_splits sum.splits option.splits)
qed

lemma visit_arc_final_kept:
  assumes "visit_arc g w sc a ms = Inr ms'" and "Final g s = Inr Weight_One"
  shows "map_find (snd (snd ms')) s = map_find (snd (snd ms)) s"
proof -
  obtain p f nx where ms: "ms = (p, f, nx)" by (cases ms)
  show ?thesis
  proof (cases "nextstate a = s")
    case True
    with assms ms show ?thesis
      by (auto simp: Let_def split: if_splits)
  next
    case False
    with assms(1) ms show ?thesis
      by (auto simp: Let_def map_find_assign_other split: if_splits sum.splits option.splits)
  qed
qed

lemma map_find_keys: "map_find m k = None \<longleftrightarrow> k \<notin> fst ` set m"
  by (simp add: map_find_def map_of_eq_None_iff)

subsection \<open>A call on states of a well-formed automaton returns\<close>

lemma wf_fst_arcs:
  "wf_fst g \<Longrightarrow> Arcs g s = Inr as \<Longrightarrow> a \<in> set as \<Longrightarrow> valid_state g (nextstate a)"
  by (auto simp: wf_fst_def Arcs_def valid_state_def NumStates_def split: if_splits)

lemma visit_arc_returns:
  assumes "valid_state g (nextstate a)"
  shows "\<exists>ms'. visit_arc g w sc a ms = Inr ms'"
proof -
  obtain p f nx where "ms = (p, f, nx)" by (cases ms)
  with assms show ?thesis
    by (auto simp: Let_def Final_def split: option.splits)
qed

lemma visit_arcs_returns:
  "\<forall>a \<in> set as. valid_state g (nextstate a) \<Longrightarrow> \<exists>ms'. visit_arcs g w sc as ms = Inr ms'"
proof (induction as arbitrary: ms)
  case Nil
  show ?case by (simp del: split_paired_Ex)
next
  case (Cons a as)
  then obtain ms1 where one: "visit_arc g w sc a ms = Inr ms1"
    using visit_arc_returns [of g a w sc ms] by auto
  from Cons.IH [of ms1] Cons.prems
  obtain ms2 where "visit_arcs g w sc as ms1 = Inr ms2" by auto
  with one have "visit_arcs g w sc (a # as) ms = Inr ms2" by simp
  then show ?case ..
qed

lemma visit_states_returns:
  "wf_fst g \<Longrightarrow> \<forall>p \<in> set act. valid_state g (fst p) \<Longrightarrow> \<exists>ms'. visit_states g w act ms = Inr ms'"
proof (induction act arbitrary: ms)
  case Nil
  show ?case by (simp del: split_paired_Ex)
next
  case (Cons sp act)
  obtain state score where sp: "sp = (state, score)" by (cases sp)
  with Cons.prems have "valid_state g state" by simp
  then obtain as where as: "Arcs g state = Inr as" by (simp add: Arcs_def)
  with Cons.prems(1) have "\<forall>a \<in> set as. valid_state g (nextstate a)"
    by (blast intro: wf_fst_arcs)
  then obtain ms1 where arcs: "visit_arcs g w score as ms = Inr ms1"
    using visit_arcs_returns by blast
  from Cons.IH [of ms1] Cons.prems
  obtain ms2 where "visit_states g w act ms1 = Inr ms2" by auto
  with sp as arcs have "visit_states g w (sp # act) ms = Inr ms2" by simp
  then show ?case ..
qed

lemma GetNextContextStates_returns:
  assumes "\<And>g. cg_graph this = Some g \<Longrightarrow> wf_fst g \<and> (\<forall>p \<in> set active_states. valid_state g (fst p))"
  shows "\<exists>r. GetNextContextStates this active_states word_id next_active_states = Inr r"
proof (cases "cg_graph this")
  case None
  then show ?thesis by (simp add: GetNextContextStates_def)
next
  case (Some g)
  with assms obtain ms' where "visit_states g word_id active_states (0, 0, next_active_states) = Inr ms'"
    using visit_states_returns by blast
  with Some show ?thesis
    by (cases ms') (simp add: GetNextContextStates_def)
qed

subsection \<open>Evaluating the example\<close>

lemmas eval_fst = Final_def Arcs_def valid_state_def NumStates_def Weight_One_def map_find_def
  std_max_def

lemma cat_step_escape:
  "GetNextContextStates cat_object [(2, 0)] 9 [] = Inr ((0, 0), [(0, - 1)])"
  by (simp add: GetNextContextStates_def cat_object_def cat_fst_def eval_fst)

lemma cat_step_prefilled:
  "GetNextContextStates cat_object [(0, 0)] 3 [(1, 9)] = Inr ((1, 0), [(1, 9), (2, 1)])"
  by (simp add: GetNextContextStates_def cat_object_def cat_fst_def eval_fst)

lemma cat_step_done:
  "GetNextContextStates cat_object [(3, 2)] 5 [] = Inr ((3, 3), [(0, 0)])"
  by (simp add: GetNextContextStates_def cat_object_def cat_fst_def eval_fst)

subsection \<open>The claims about a step\<close>

text \<open>C10. Both scores that a call returns are non-negative: they start at 0 and are only
  ever replaced by a greater candidate.\<close>

theorem scores_nonnegative:
  assumes "GetNextContextStates this active_states word_id next_active_states
             = Inr ((partial_match_score, full_match_score), next_active_states')"
  shows "0 \<le> partial_match_score \<and> 0 \<le> full_match_score"
proof (cases "cg_graph this = None \<or> active_states = []")
  case True
  with assms show ?thesis
    by (auto simp: GetNextContextStates_def split: option.splits)
next
  case False
  then obtain g where g: "cg_graph this = Some g" and act: "active_states \<noteq> []" by auto
  with assms
  have run: "visit_states g word_id active_states (0, 0, next_active_states)
               = Inr (partial_match_score, full_match_score, next_active_states')"
    by (auto simp: GetNextContextStates_def split: sum.splits)
  have "0 \<le> fst (partial_match_score, full_match_score, next_active_states')
        \<and> 0 \<le> fst (snd (partial_match_score, full_match_score, next_active_states'))"
    by (rule visit_states_invariant
          [of g word_id "\<lambda>ms. 0 \<le> fst ms \<and> 0 \<le> fst (snd ms)", OF visit_arc_scores run])
       simp_all
  then show ?thesis by simp
qed

text \<open>In state 2 of the example with score 0, a token that matches no arc leaves only
  the escape arc, whose candidate is \<open>- 1\<close>: the scores stay 0.\<close>

theorem scores_nonnegative_witness:
  "GetNextContextStates cat_object [(2, 0)] 9 [] = Inr ((0, 0), [(0, - 1)])
   \<and> (0::real) \<le> 0 \<and> (0::real) \<le> 0"
  using scores_nonnegative [OF cat_step_escape] cat_step_escape by simp

text \<open>C3. When the target of an examined arc is not final and already has an entry \<open>v\<close> in
  \<open>next_active_states\<close>, a strictly greater candidate replaces \<open>v\<close> (and touches no other
  entry), while a candidate that is equal to \<open>v\<close>, or smaller, leaves the map as it is: the
  value written first stays.\<close>

theorem equal_candidate_keeps_first:
  assumes "ilabel a = word_id \<or> ilabel a = 0"
    and "Final g (nextstate a) = Inr fw" and "fw \<noteq> Weight_One"
    and "map_find next_active_states (nextstate a) = Some v"
  shows "\<exists>next_active_states'.
           visit_arc g word_id score a (partial_match_score, full_match_score, next_active_states)
             = Inr (std_max partial_match_score (score + weight a), full_match_score,
                    next_active_states')
           \<and> (v < score + weight a \<longrightarrow>
                next_active_states' = map_assign (nextstate a) (score + weight a) next_active_states
                \<and> map_find next_active_states'
                    = (map_find next_active_states)(nextstate a \<mapsto> score + weight a))
           \<and> (score + weight a \<le> v \<longrightarrow> next_active_states' = next_active_states)"
  using assms by (auto simp: Let_def map_find_assign)

text \<open>The escape arc from state 2 to the start state, when the start state already has the
  entry 0: the candidate \<open>1 - 1 = 0\<close> is equal and the map is unchanged; the candidate
  \<open>2 - 1 = 1\<close> is greater and replaces it.\<close>

theorem equal_candidate_keeps_first_witness:
  "visit_arc cat_fst 9 1 \<lparr>ilabel = 0, olabel = 0, weight = - 1, nextstate = 0\<rparr> (0, 0, [(0, 0)])
     = Inr (0, 0, [(0, 0)])
   \<and> visit_arc cat_fst 9 2 \<lparr>ilabel = 0, olabel = 0, weight = - 1, nextstate = 0\<rparr> (0, 0, [(0, 0)])
     = Inr (1, 0, [(0, 1)])"
proof -
  let ?a = "\<lparr>ilabel = 0, olabel = 0, weight = - 1, nextstate = 0\<rparr>"
  have lab: "ilabel ?a = 9 \<or> ilabel ?a = 0" by simp
  have fin: "Final cat_fst (nextstate ?a) = Inr Weight_Zero"
    by (simp add: cat_fst_def eval_fst)
  have ne: "Weight_Zero \<noteq> Weight_One" by (simp add: Weight_One_def)
  have old: "map_find [(0, 0)] (nextstate ?a) = Some 0" by (simp add: map_find_def)
  from equal_candidate_keeps_first [OF lab fin ne old, of 1 0 0]
       equal_candidate_keeps_first [OF lab fin ne old, of 2 0 0]
  show ?thesis by (auto simp: std_max_def)
qed

text \<open>C5, as stated, fails: \<open>next_active_states\<close> is passed by reference and the early
  return of line 75 does not touch it, so it is empty after the call only when it was empty
  before. Here there is no automaton and no active state, and the entry \<open>5 \<mapsto> 1\<close> that the
  caller passed is still there.\<close>

theorem fast_path_counterexample:
  "GetNextContextStates no_object [] 7 [(5, 1)] = Inr ((0, 0), [(5, 1)])
   \<and> GetNextContextStates no_object [] 7 [(5, 1)] \<noteq> Inr ((0, 0), [])"
  by (simp add: GetNextContextStates_def no_object_def)

text \<open>C5, amended. When \<open>active_states\<close> is empty or there is no automaton, the call returns
  the scores \<open>(0, 0)\<close> and leaves \<open>next_active_states\<close> as the caller passed it, whatever
  \<open>active_states\<close> holds; in particular it is empty when it was passed empty.\<close>

theorem fast_path:
  assumes "active_states = [] \<or> cg_graph this = None"
  shows "GetNextContextStates this active_states word_id next_active_states
           = Inr ((0, 0), next_active_states)"
  using assms by (auto simp: GetNextContextStates_def split: option.splits)

text \<open>Without an automaton two active states change nothing; with the automaton of the
  example, an empty \<open>active_states\<close> changes nothing.\<close>

theorem fast_path_witness:
  "GetNextContextStates no_object [(0, 0), (2, 1)] 3 [] = Inr ((0, 0), [])
   \<and> GetNextContextStates cat_object [] 3 [] = Inr ((0, 0), [])"
proof -
  have "[(0, 0), (2, 1)] = [] \<or> cg_graph no_object = None" by (simp add: no_object_def)
  from fast_path [OF this, of 3 "[]"] fast_path [of "[]" cat_object 3 "[]"]
  show ?thesis by simp
qed

text \<open>C2, as stated, fails in its last part: the call never clears \<open>next_active_states\<close>,
  so an entry for the final state that the caller passed in is still in the map after the
  call. Here state 1 is final and enters the call with the value 9.\<close>

theorem final_state_counterexample:
  "GetNextContextStates cat_object [(0, 0)] 3 [(1, 9)] = Inr ((1, 0), [(1, 9), (2, 1)])
   \<and> Final cat_fst 1 = Inr Weight_One \<and> (1::int) \<in> fst ` set [(1, 9), (2, 1 :: real)]"
  using cat_step_prefilled by (simp add: cat_fst_def eval_fst)

text \<open>C2, amended. For a state \<open>s\<close> whose final weight is \<open>Weight::One()\<close>: an examined arc
  into \<open>s\<close> raises \<open>partial_match_score\<close> and \<open>full_match_score\<close> by \<open>std::max\<close> with the
  candidate and leaves \<open>next_active_states\<close> alone; and a whole call neither inserts nor
  changes an entry for \<open>s\<close>: the map holds \<open>s\<close> after the call exactly when the caller
  passed it in, so never when the caller passed an empty map.\<close>

theorem final_state_not_inserted:
  assumes "cg_graph this = Some g" and "Final g s = Inr Weight_One"
  shows "(\<forall>(a::StdArc) score p f nx.
            nextstate a = s \<and> (ilabel a = word_id \<or> ilabel a = 0) \<longrightarrow>
            visit_arc g word_id score a (p, f, nx)
              = Inr (std_max p (score + weight a), std_max f (score + weight a), nx))
         \<and> (\<forall>active_states next_active_states scores next_active_states'.
              GetNextContextStates this active_states word_id next_active_states
                = Inr (scores, next_active_states') \<longrightarrow>
              map_find next_active_states' s = map_find next_active_states s
              \<and> (s \<in> fst ` set next_active_states' \<longleftrightarrow> s \<in> fst ` set next_active_states))"
proof (intro conjI allI impI)
  fix a :: StdArc and score p f nx
  assume "nextstate a = s \<and> (ilabel a = word_id \<or> ilabel a = 0)"
  with assms(2)
  show "visit_arc g word_id score a (p, f, nx)
          = Inr (std_max p (score + weight a), std_max f (score + weight a), nx)"
    by (auto simp: Let_def)
next
  fix active_states next_active_states scores next_active_states'
  assume call: "GetNextContextStates this active_states word_id next_active_states
                  = Inr (scores, next_active_states')"
  have kept: "map_find next_active_states' s = map_find next_active_states s"
  proof (cases "active_states = []")
    case True
    with call assms(1) show ?thesis by (simp add: GetNextContextStates_def)
  next
    case False
    with call assms(1) obtain p f
      where run: "visit_states g word_id active_states (0, 0, next_active_states)
                    = Inr (p, f, next_active_states')"
      by (auto simp: GetNextContextStates_def split: sum.splits)
    have "map_find (snd (snd (p, f, next_active_states'))) s = map_find next_active_states s"
      by (rule visit_states_invariant
            [of g word_id "\<lambda>ms. map_find (snd (snd ms)) s = map_find next_active_states s",
             OF _ run])
         (simp_all add: visit_arc_final_kept [OF _ assms(2)])
    then show ?thesis by simp
  qed
  then show "map_find next_active_states' s = map_find next_active_states s" .
  from kept show "s \<in> fst ` set next_active_states' \<longleftrightarrow> s \<in> fst ` set next_active_states"
    using map_find_keys [of next_active_states' s] map_find_keys [of next_active_states s]
    by auto
qed

text \<open>The arc on ``t'' from state 3 into the final state 1, taken with score 2: both scores
  become 3, and the map after the whole call holds the start state only.\<close>

theorem final_state_not_inserted_witness:
  "visit_arc cat_fst 5 2 \<lparr>ilabel = 5, olabel = 5, weight = 1, nextstate = 1\<rparr> (0, 0, [])
     = Inr (3, 3, [])
   \<and> GetNextContextStates cat_object [(3, 2)] 5 [] = Inr ((3, 3), [(0, 0)])
   \<and> (1::int) \<notin> fst ` set [(0, 0 :: real)]"
proof -
  have g: "cg_graph cat_object = Some cat_fst" by (simp add: cat_object_def)
  have fin: "Final cat_fst 1 = Inr Weight_One" by (simp add: cat_fst_def eval_fst)
  note arc = conjunct1 [OF final_state_not_inserted [OF g fin, of 5], rule_format,
    of "\<lparr>ilabel = 5, olabel = 5, weight = 1, nextstate = 1\<rparr>" 2 0 0 "[]"]
  note call = conjunct2 [OF final_state_not_inserted [OF g fin, of 5], rule_format,
    OF cat_step_done]
  from arc call cat_step_done show ?thesis by (simp add: std_max_def)
qed

section \<open>Properties of BuildContextGraph\<close>

subsection \<open>Arcs and states appended\<close>

lemma valid_state_nat: "valid_state g s \<Longrightarrow> nat s < length (fst_states g)"
  by (simp add: valid_state_def NumStates_def nat_less_iff)

lemma add_arcs_Nil [simp]: "add_arcs s [] g = g"
  by (simp add: add_arcs_def)

lemma AddArc_add_arcs: "valid_state g s \<Longrightarrow> AddArc s a g = add_arcs s [a] g"
  by (simp add: AddArc_def add_arcs_def)

lemma valid_add_arcs [simp]: "valid_state (add_arcs s as g) t = valid_state g t"
  by (simp add: add_arcs_def valid_state_def NumStates_def)

lemma add_arcs_add_arcs:
  "valid_state g s \<Longrightarrow> add_arcs s bs (add_arcs s as g) = add_arcs s (as @ bs) g"
  by (simp add: add_arcs_def valid_state_nat)

lemma AddState_add_states:
  "AddState g = (int (NumStates g), add_states [\<lparr>st_final = Weight_Zero, st_arcs = []\<rparr>] g)"
  by (simp add: AddState_def add_states_def)

lemma add_arcs_add_states:
  "valid_state g s \<Longrightarrow> add_arcs s as (add_states sts g) = add_states sts (add_arcs s as g)"
  by (simp add: add_arcs_def add_states_def valid_state_nat list_update_append nth_append)

lemma add_arcs_new_state:
  "add_arcs (int (NumStates g)) as (add_states (\<lparr>st_final = w, st_arcs = bs\<rparr> # sts) g)
     = add_states (\<lparr>st_final = w, st_arcs = bs @ as\<rparr> # sts) g"
  by (simp add: add_arcs_def add_states_def NumStates_def list_update_append nth_append)

lemma add_states_add_states: "add_states ys (add_states xs g) = add_states (xs @ ys) g"
  by (simp add: add_states_def)

lemma NumStates_add_states [simp]: "NumStates (add_states sts g) = NumStates g + length sts"
  by (simp add: add_states_def NumStates_def)

lemma NumStates_add_arcs [simp]: "NumStates (add_arcs s as g) = NumStates g"
  by (simp add: add_arcs_def NumStates_def)

lemma valid_add_states: "valid_state g s \<Longrightarrow> valid_state (add_states sts g) s"
  by (simp add: valid_state_def)

subsection \<open>The loop over the characters in closed form\<close>

text \<open>A run of the loop over resolved characters \<open>pre\<close>, stopped by the end of the phrase
  or by a character that is missing, appends \<open>chain_arcs\<close> to the state it starts from and
  one state for every character but the last of the phrase.\<close>

lemma chain_arcs_shift:
  "i < j \<Longrightarrow> chain_arcs cfg tbl s f n (Suc N) (Suc i) pre j = chain_arcs cfg tbl s f n N i (c # pre) j"
  by (simp add: chain_arcs_def nth_Cons')

lemma chain_states_shift:
  "\<forall>j \<in> set js. i < j \<Longrightarrow>
   map (\<lambda>j. \<lparr>st_final = Weight_Zero,
             st_arcs = chain_arcs cfg tbl s f n (Suc N) (Suc i) pre j\<rparr>) js
     = map (\<lambda>j. \<lparr>st_final = Weight_Zero,
               st_arcs = chain_arcs cfg tbl s f n N i (c # pre) j\<rparr>) js"
  by (induction js) (simp_all add: chain_arcs_shift)

lemma upt_shift: "[Suc i ..< Suc i + Suc m] = Suc i # [Suc (Suc i) ..< Suc (Suc i) + m]"
  by (simp add: upt_conv_Cons del: upt_Suc)

lemma add_chars_closed:
  assumes "\<forall>ch \<in> set pre. tbl ch \<noteq> - 1" and "stop = [] \<or> tbl (hd stop) = - 1"
    and "i + length pre + length stop = n" and "valid_state g prev"
  shows "add_chars cfg tbl s f n (pre @ stop) i prev g =
           add_states
             (map (\<lambda>j. \<lparr>st_final = Weight_Zero,
                        st_arcs = chain_arcs cfg tbl s f n (NumStates g) i pre j\<rparr>)
                  [Suc i ..< Suc i + min (length pre) (n - 1 - i)])
             (add_arcs prev (chain_arcs cfg tbl s f n (NumStates g) i pre i) g)"
  using assms
proof (induction pre arbitrary: i prev g)
  case Nil
  then show ?case
    by (cases stop) (simp_all add: chain_arcs_def add_states_def)
next
  case (Cons c pre)
  let ?N = "NumStates g"
  from Cons.prems have c: "tbl c \<noteq> - 1" by simp
  show ?case
  proof (cases "i < n - 1")
    case True
    let ?g3 = "add_states [\<lparr>st_final = Weight_Zero, st_arcs = []\<rparr>]
                 (add_arcs prev (chain_arcs cfg tbl s f n ?N i (c # pre) i) g)"
    have step: "add_chars cfg tbl s f n ((c # pre) @ stop) i prev g
                  = add_chars cfg tbl s f n (pre @ stop) (Suc i) (int ?N) ?g3"
      using c True Cons.prems(4)
      by (simp add: Let_def AddState_add_states AddArc_add_arcs valid_add_states
            add_arcs_add_arcs add_arcs_add_states chain_arcs_def)
    have valid: "valid_state ?g3 (int ?N)"
      by (simp add: valid_state_def)
    have len: "Suc i + length pre + length stop = n" using Cons.prems(3) by simp
    have pre: "\<forall>ch \<in> set pre. tbl ch \<noteq> - 1" using Cons.prems(1) by simp
    note ih = Cons.IH [OF pre Cons.prems(2) len valid]
    have N3: "NumStates ?g3 = Suc ?N" by simp
    have maps: "map (\<lambda>j. \<lparr>st_final = Weight_Zero,
                        st_arcs = chain_arcs cfg tbl s f n (Suc ?N) (Suc i) pre j\<rparr>)
                  [Suc (Suc i) ..< Suc (Suc i) + min (length pre) (n - 1 - Suc i)]
                = map (\<lambda>j. \<lparr>st_final = Weight_Zero,
                        st_arcs = chain_arcs cfg tbl s f n ?N i (c # pre) j\<rparr>)
                  [Suc (Suc i) ..< Suc (Suc i) + min (length pre) (n - 1 - Suc i)]"
      by (rule chain_states_shift) (simp only: set_upt atLeastLessThan_iff, simp)
    have upt: "[Suc i ..< Suc i + min (length (c # pre)) (n - 1 - i)]
                = Suc i # [Suc (Suc i) ..< Suc (Suc i) + min (length pre) (n - 1 - Suc i)]"
    proof -
      from True have "min (length (c # pre)) (n - 1 - i) = Suc (min (length pre) (n - 1 - Suc i))"
        by auto
      then show ?thesis by (simp only: upt_shift)
    qed
    let ?g2 = "add_arcs prev (chain_arcs cfg tbl s f n ?N i (c # pre) i) g"
    have first: "add_arcs (int ?N) (chain_arcs cfg tbl s f n (Suc ?N) (Suc i) pre (Suc i)) ?g3
                   = add_states [\<lparr>st_final = Weight_Zero,
                                  st_arcs = chain_arcs cfg tbl s f n ?N i (c # pre) (Suc i)\<rparr>] ?g2"
      using add_arcs_new_state [of ?g2 _ Weight_Zero "[]" "[]"]
      by (simp add: chain_arcs_shift [where c = c])
    show ?thesis
      unfolding step ih N3 maps upt first
      by (simp add: add_states_add_states)
  next
    case False
    with Cons.prems(3) have "i = n - 1" "pre = []" "stop = []" "0 < n" by auto
    with c Cons.prems(4) show ?thesis
      by (simp add: Let_def AddArc_add_arcs add_arcs_add_arcs chain_arcs_def add_states_def)
  qed
qed

lemma length_chain_states:
  "length (chain_states cfg tbl s f N chars)
     = min (length (resolved tbl chars)) (length chars - 1)"
  unfolding chain_states_def length_map length_upt by simp

lemma nth_chain_states:
  assumes "0 < i" and "i \<le> min (length (resolved tbl chars)) (length chars - 1)"
  shows "chain_states cfg tbl s f N chars ! (i - 1)
           = \<lparr>st_final = Weight_Zero,
              st_arcs = chain_arcs cfg tbl s f (length chars) N 0 (resolved tbl chars) i\<rparr>"
proof -
  let ?m = "min (length (resolved tbl chars)) (length chars - 1)"
  from assms have "i - 1 < length [Suc 0 ..< Suc 0 + ?m]"
    unfolding length_upt by arith
  moreover from assms have "[Suc 0 ..< Suc 0 + ?m] ! (i - 1) = i"
    by (subst nth_upt) arith+
  ultimately show ?thesis
    unfolding chain_states_def by (simp only: nth_map)
qed

lemma chain_arcs_inner:
  "0 < i \<Longrightarrow> i < length pre \<Longrightarrow>
   chain_arcs cfg tbl s f n N 0 pre i
     = [\<lparr>ilabel = 0, olabel = 0, weight = - context_score cfg * real i, nextstate = s\<rparr>,
        \<lparr>ilabel = tbl (pre ! i), olabel = tbl (pre ! i), weight = context_score cfg,
         nextstate = (if i < n - 1 then int (N + i) else f)\<rparr>]"
  by (simp add: chain_arcs_def)

lemma chain_arcs_first:
  "pre \<noteq> [] \<Longrightarrow>
   chain_arcs cfg tbl s f n N 0 pre 0
     = [\<lparr>ilabel = tbl (pre ! 0), olabel = tbl (pre ! 0), weight = context_score cfg,
         nextstate = (if 0 < n - 1 then int N else f)\<rparr>]"
  by (simp add: chain_arcs_def)

lemma chain_arcs_end: "length pre \<le> i \<Longrightarrow> chain_arcs cfg tbl s f n N 0 pre i = []"
  by (simp add: chain_arcs_def)

lemma resolved_stop:
  "\<forall>ch \<in> set pre. tbl ch \<noteq> - 1 \<Longrightarrow> tbl bad = - 1 \<Longrightarrow> resolved tbl (pre @ bad # post) = pre"
  by (simp add: resolved_def takeWhile_append2)

lemma resolved_all: "\<forall>ch \<in> set chars. tbl ch \<noteq> - 1 \<Longrightarrow> resolved tbl chars = chars"
  by (simp add: resolved_def)

lemma add_chars_stop:
  "\<forall>ch \<in> set pre. tbl ch \<noteq> - 1 \<Longrightarrow> tbl bad = - 1 \<Longrightarrow>
   add_chars cfg tbl s f n (pre @ bad # post) i prev g = add_chars cfg tbl s f n pre i prev g"
  by (induction pre arbitrary: i prev g) (simp_all add: Let_def split: prod.splits)

lemma add_context_closed:
  assumes "valid_state g s"
  shows "add_context cfg tbl s f context g =
           add_states (chain_states cfg tbl s f (NumStates g) (SplitUTF8StringToChars (Trim context)))
             (add_arcs s (chain_arcs cfg tbl s f (length (SplitUTF8StringToChars (Trim context)))
                            (NumStates g) 0
                            (resolved tbl (SplitUTF8StringToChars (Trim context))) 0) g)"
proof -
  let ?chars = "SplitUTF8StringToChars (Trim context)"
  let ?pre = "takeWhile (\<lambda>ch. tbl ch \<noteq> - 1) ?chars"
  let ?stop = "dropWhile (\<lambda>ch. tbl ch \<noteq> - 1) ?chars"
  have pre: "\<forall>ch \<in> set ?pre. tbl ch \<noteq> - 1"
    by (auto dest: set_takeWhileD)
  have stop: "?stop = [] \<or> tbl (hd ?stop) = - 1"
    using hd_dropWhile [of "\<lambda>ch. tbl ch \<noteq> - 1" ?chars] by auto
  have len: "0 + length ?pre + length ?stop = length ?chars"
  proof -
    have "length (?pre @ ?stop) = length ?chars" by simp
    then show ?thesis unfolding length_append by simp
  qed
  show ?thesis
    unfolding add_context_def chain_states_def resolved_def Let_def
    using add_chars_closed [OF pre stop len assms, of cfg s f]
    by (simp only: takeWhile_dropWhile_id diff_zero)
qed

subsection \<open>What a phrase leaves untouched\<close>

lemma extends_refl: "extends s g g"
  unfolding extends_def
  by (rule exI [of _ "[]"], rule exI [of _ "[]"]) (simp add: add_states_def)

lemma extends_valid: "extends s g g' \<Longrightarrow> valid_state g t \<Longrightarrow> valid_state g' t"
  by (auto simp: extends_def valid_state_def)

lemma extends_trans:
  assumes "valid_state g s" and "extends s g g1" and "extends s g1 g2"
  shows "extends s g g2"
proof -
  from assms(2) obtain as sts where g1: "g1 = add_states sts (add_arcs s as g)"
    by (auto simp: extends_def)
  from assms(3) obtain bs sts' where g2: "g2 = add_states sts' (add_arcs s bs g1)"
    by (auto simp: extends_def)
  have "g2 = add_states (sts @ sts') (add_arcs s (as @ bs) g)"
    using assms(1)
    by (simp add: g1 g2 add_arcs_add_states add_arcs_add_arcs add_states_add_states)
  then show ?thesis by (auto simp: extends_def)
qed

lemma extends_NumStates: "extends s g g' \<Longrightarrow> NumStates g \<le> NumStates g'"
  by (auto simp: extends_def)

lemma extends_start: "extends s g g' \<Longrightarrow> fst_start g' = fst_start g"
  by (auto simp: extends_def add_states_def add_arcs_def)

lemma extends_nth:
  "extends s g g' \<Longrightarrow> k < NumStates g \<Longrightarrow> k \<noteq> nat s \<Longrightarrow> fst_states g' ! k = fst_states g ! k"
  by (auto simp: extends_def add_states_def add_arcs_def NumStates_def nth_append)

lemma extends_final:
  "extends s g g' \<Longrightarrow> k < NumStates g \<Longrightarrow> st_final (fst_states g' ! k) = st_final (fst_states g ! k)"
  by (cases "k = nat s")
     (auto simp: extends_def add_states_def add_arcs_def NumStates_def nth_append)

lemma extends_arcs:
  "extends s g g' \<Longrightarrow> valid_state g s \<Longrightarrow>
   set (st_arcs (fst_states g ! nat s)) \<subseteq> set (st_arcs (fst_states g' ! nat s))"
  by (auto simp: extends_def add_states_def add_arcs_def nth_append dest: valid_state_nat)

lemma add_context_extends: "valid_state g s \<Longrightarrow> extends s g (add_context cfg tbl s f context g)"
  unfolding extends_def by (subst add_context_closed) auto

lemma foldl_add_context_extends:
  "valid_state g s \<Longrightarrow> extends s g (foldl (\<lambda>g c. add_context cfg tbl s f c g) g cs)"
proof (induction cs arbitrary: g)
  case Nil
  show ?case by (simp add: extends_refl)
next
  case (Cons c cs)
  have one: "extends s g (add_context cfg tbl s f c g)"
    by (rule add_context_extends [OF Cons.prems])
  have "extends s (add_context cfg tbl s f c g)
          (foldl (\<lambda>g c. add_context cfg tbl s f c g) (add_context cfg tbl s f c g) cs)"
    by (rule Cons.IH [OF extends_valid [OF one Cons.prems]])
  with one Cons.prems show ?case by (auto intro: extends_trans)
qed

subsection \<open>The loop over the phrases\<close>

lemma two_state_valid: "valid_state two_state_fst 0" "NumStates two_state_fst = 2"
  by (simp_all add: two_state_fst_def valid_state_def NumStates_def)

lemma build_ofst_loop:
  "build_ofst cfg tbl query_contexts = add_contexts cfg tbl 0 1 query_contexts 0 two_state_fst"
  by (simp add: build_ofst_def AddState_def new_fst_def NumStates_def SetStart_def SetFinal_def
        valid_state_def two_state_fst_def)

lemma add_contexts_fold:
  "add_contexts cfg tbl s f query_contexts count ofst =
     foldl (\<lambda>g c. add_context cfg tbl s f c g) ofst
       (take (nat (max_contexts cfg - count))
          (filter (\<lambda>c. length c \<le> max_context_length cfg) query_contexts))"
proof (induction query_contexts arbitrary: count ofst)
  case Nil
  show ?case by simp
next
  case (Cons c cs)
  show ?case
  proof (cases "length c > max_context_length cfg")
    case True
    then show ?thesis by (simp add: Cons.IH)
  next
    case long: False
    show ?thesis
    proof (cases "count + 1 > max_contexts cfg")
      case True
      with long show ?thesis by simp
    next
      case False
      then have "nat (max_contexts cfg - count) = Suc (nat (max_contexts cfg - (count + 1)))"
        by simp
      with long False show ?thesis by (simp add: Cons.IH)
    qed
  qed
qed

lemma build_ofst_fold:
  "build_ofst cfg tbl query_contexts =
     foldl (\<lambda>g c. add_context cfg tbl 0 1 c g) two_state_fst
       (take (nat (max_contexts cfg))
          (filter (\<lambda>c. length c \<le> max_context_length cfg) query_contexts))"
  by (simp add: build_ofst_loop add_contexts_fold)

lemma build_ofst_compiled:
  assumes "compiled = take (nat (max_contexts cfg))
                        (filter (\<lambda>c. length c \<le> max_context_length cfg) query_contexts)"
  shows "build_ofst cfg tbl (take j compiled)
           = foldl (\<lambda>g c. add_context cfg tbl 0 1 c g) two_state_fst (take j compiled)"
proof -
  have "\<forall>c \<in> set (take j compiled). length c \<le> max_context_length cfg"
    unfolding assms by (auto dest!: in_set_takeD)
  then have keep: "filter (\<lambda>c. length c \<le> max_context_length cfg) (take j compiled)
                     = take j compiled"
    by (simp add: filter_id_conv)
  have "length compiled \<le> nat (max_contexts cfg)"
    unfolding assms by simp
  then have "take (nat (max_contexts cfg)) (take j compiled) = take j compiled"
    by (cases "j \<le> nat (max_contexts cfg)") (simp_all add: min_def)
  with keep show ?thesis by (simp add: build_ofst_fold)
qed

lemma build_ofst_extends: "extends 0 two_state_fst (build_ofst cfg tbl query_contexts)"
  unfolding build_ofst_fold
  by (rule foldl_add_context_extends) (rule two_state_valid)

lemma build_ofst_split:
  assumes "compiled = take (nat (max_contexts cfg))
                        (filter (\<lambda>c. length c \<le> max_context_length cfg) query_contexts)"
    and "j < length compiled"
  shows "build_ofst cfg tbl query_contexts
           = foldl (\<lambda>g c. add_context cfg tbl 0 1 c g)
               (add_context cfg tbl 0 1 (compiled ! j) (build_ofst cfg tbl (take j compiled)))
               (drop (Suc j) compiled)"
proof -
  have "compiled = take j compiled @ compiled ! j # drop (Suc j) compiled"
    using assms(2) by (rule id_take_nth_drop)
  then have "foldl (\<lambda>g c. add_context cfg tbl 0 1 c g) two_state_fst compiled
               = foldl (\<lambda>g c. add_context cfg tbl 0 1 c g)
                   (add_context cfg tbl 0 1 (compiled ! j)
                      (foldl (\<lambda>g c. add_context cfg tbl 0 1 c g) two_state_fst (take j compiled)))
                   (drop (Suc j) compiled)"
    by (metis foldl_append foldl_Cons)
  then show ?thesis
    unfolding build_ofst_compiled [OF assms(1)]
    by (simp add: build_ofst_fold assms(1) [symmetric])
qed

lemma build_ofst_final:
  "fst_start (build_ofst cfg tbl query_contexts) = 0"
  "Final (build_ofst cfg tbl query_contexts) 1 = Inr Weight_One"
proof -
  note ext = build_ofst_extends [of cfg tbl query_contexts]
  from extends_start [OF ext] show "fst_start (build_ofst cfg tbl query_contexts) = 0"
    by (simp add: two_state_fst_def)
  have one: "1 < NumStates two_state_fst" by (simp add: two_state_valid)
  from extends_NumStates [OF ext] have "2 \<le> NumStates (build_ofst cfg tbl query_contexts)"
    by (simp add: two_state_valid)
  moreover from extends_final [OF ext one]
  have "st_final (fst_states (build_ofst cfg tbl query_contexts) ! 1) = Weight_One"
    by (simp add: two_state_fst_def)
  ultimately show "Final (build_ofst cfg tbl query_contexts) 1 = Inr Weight_One"
    by (simp add: Final_def valid_state_def)
qed

lemma phrase_states:
  assumes compiled: "compiled = take (nat (max_contexts cfg))
                        (filter (\<lambda>c. length c \<le> max_context_length cfg) query_contexts)"
    and j: "j < length compiled"
    and chars: "chars = SplitUTF8StringToChars (Trim (compiled ! j))"
    and N: "N = NumStates (build_ofst cfg tbl (take j compiled))"
    and G: "G = build_ofst cfg tbl query_contexts"
  shows "2 \<le> N"
    and "N + min (length (resolved tbl chars)) (length chars - 1) \<le> NumStates G"
    and "set (chain_arcs cfg tbl 0 1 (length chars) N 0 (resolved tbl chars) 0)
           \<subseteq> set (st_arcs (fst_states G ! 0))"
    and "\<And>i. 0 < i \<Longrightarrow> i \<le> min (length (resolved tbl chars)) (length chars - 1) \<Longrightarrow>
           fst_states G ! (N + i - 1)
             = \<lparr>st_final = Weight_Zero,
                st_arcs = chain_arcs cfg tbl 0 1 (length chars) N 0 (resolved tbl chars) i\<rparr>"
proof -
  let ?before = "build_ofst cfg tbl (take j compiled)"
  let ?mid = "add_context cfg tbl 0 1 (compiled ! j) ?before"
  let ?m = "min (length (resolved tbl chars)) (length chars - 1)"
  have before: "extends 0 two_state_fst ?before" by (rule build_ofst_extends)
  from extends_NumStates [OF before] show N2: "2 \<le> N" by (simp add: N two_state_valid)
  have valid: "valid_state ?before 0"
    by (rule extends_valid [OF before two_state_valid(1)])
  have mid: "?mid = add_states (chain_states cfg tbl 0 1 N chars)
                      (add_arcs 0 (chain_arcs cfg tbl 0 1 (length chars) N 0 (resolved tbl chars) 0)
                         ?before)"
    unfolding N chars by (rule add_context_closed [OF valid])
  have mid_valid: "valid_state ?mid 0"
    by (rule extends_valid [OF add_context_extends [OF valid] valid])
  have G_mid: "extends 0 ?mid G"
    unfolding G build_ofst_split [OF compiled j]
    by (rule foldl_add_context_extends [OF mid_valid])
  have mid_size: "NumStates ?mid = N + ?m"
    unfolding mid by (simp add: N length_chain_states)
  from extends_NumStates [OF G_mid] mid_size
  show "N + ?m \<le> NumStates G" by simp
  have "set (chain_arcs cfg tbl 0 1 (length chars) N 0 (resolved tbl chars) 0)
          \<subseteq> set (st_arcs (fst_states ?mid ! nat 0))"
    unfolding mid using valid_state_nat [OF valid]
    by (simp add: add_states_def add_arcs_def nth_append)
  with extends_arcs [OF G_mid mid_valid]
  show "set (chain_arcs cfg tbl 0 1 (length chars) N 0 (resolved tbl chars) 0)
          \<subseteq> set (st_arcs (fst_states G ! 0))"
    by simp
  fix i
  assume i: "0 < i" "i \<le> ?m"
  have "fst_states ?mid ! (N + i - 1) = chain_states cfg tbl 0 1 N chars ! (i - 1)"
    unfolding mid using i
    by (simp add: add_states_def add_arcs_def nth_append N NumStates_def)
  also have "\<dots> = \<lparr>st_final = Weight_Zero,
                st_arcs = chain_arcs cfg tbl 0 1 (length chars) N 0 (resolved tbl chars) i\<rparr>"
    using i by (rule nth_chain_states)
  finally have "fst_states ?mid ! (N + i - 1) = \<lparr>st_final = Weight_Zero,
                st_arcs = chain_arcs cfg tbl 0 1 (length chars) N 0 (resolved tbl chars) i\<rparr>" .
  moreover have "fst_states G ! (N + i - 1) = fst_states ?mid ! (N + i - 1)"
  proof (rule extends_nth [OF G_mid])
    from i mid_size show "N + i - 1 < NumStates ?mid" by arith
    from i N2 show "N + i - 1 \<noteq> nat 0" by simp
  qed
  ultimately show "fst_states G ! (N + i - 1)
             = \<lparr>st_final = Weight_Zero,
                st_arcs = chain_arcs cfg tbl 0 1 (length chars) N 0 (resolved tbl chars) i\<rparr>"
    by simp
qed

lemma filter_skip:
  "\<not> P x \<Longrightarrow> filter P (before @ x # after) = filter P (before @ after)"
  by simp

lemma unknown_token_states:
  assumes "SplitUTF8StringToChars (Trim c) = pre @ bad # post"
    and "\<forall>ch \<in> set pre. tbl ch \<noteq> - 1" and "tbl bad = - 1"
    and "length c \<le> max_context_length cfg" and "0 < max_contexts cfg"
  shows "NumStates (build_ofst cfg tbl [c]) = 2 + length pre"
proof -
  from assms(5) have "nat (max_contexts cfg) = Suc (nat (max_contexts cfg) - 1)" by simp
  then have "take (nat (max_contexts cfg)) [c] = [c]" by (metis take_Suc_Cons take.simps(1))
  with assms(4) have "build_ofst cfg tbl [c] = add_context cfg tbl 0 1 c two_state_fst"
    by (simp add: build_ofst_fold)
  also have "NumStates \<dots> = 2 + min (length pre) (length (pre @ bad # post) - 1)"
    by (simp add: add_context_closed [OF two_state_valid(1)] assms(1) length_chain_states
          resolved_stop [OF assms(2,3)] two_state_valid(2))
  finally show ?thesis by simp
qed

lemma BuildContextGraph_returns:
  "\<exists>this'. BuildContextGraph Determinize query_contexts (Some tbl) this = Inr this'"
  by (simp add: BuildContextGraph_def)

subsection \<open>Characters and bytes\<close>

lemma length_SplitUTF8StringToChars: "length (SplitUTF8StringToChars s) \<le> length s"
proof (induction s rule: SplitUTF8StringToChars.induct)
  case 1
  show ?case by simp
next
  case (2 c cs)
  have "length (dropWhile is_continuation cs) \<le> length cs" by (rule length_dropWhile_le)
  with 2 show ?case by simp
qed

lemma length_Trim: "length (Trim s) \<le> length s"
proof -
  have "length (dropWhile is_space (rev (dropWhile is_space s))) \<le> length (rev (dropWhile is_space s))"
    by (rule length_dropWhile_le)
  also have "\<dots> \<le> length s" by (simp add: length_dropWhile_le)
  finally show ?thesis by (simp add: Trim_def)
qed

lemma token_count_le_size: "length (SplitUTF8StringToChars (Trim context)) \<le> length context"
  using length_SplitUTF8StringToChars [of "Trim context"] length_Trim [of "context"] by simp

subsection \<open>Evaluating the example\<close>

lemma cat_chars: "SplitUTF8StringToChars (Trim ''cat'') = [''c'', ''a'', ''t'']"
  by (simp add: Trim_def is_space_def is_continuation_def)

lemmas eval_build = add_context_def AddState_def AddArc_def NumStates_def valid_state_def
  two_state_fst_def Weight_One_def

lemma cat_build: "build_ofst unit_config cat_table [''cat''] = cat_fst"
  by (simp add: build_ofst_loop cat_chars unit_config_def cat_table_def cat_fst_def eval_build)

lemma empty_build: "build_ofst cfg tbl [] = two_state_fst"
  by (simp add: build_ofst_loop)

lemma cax_chars: "SplitUTF8StringToChars (Trim ''cax'') = [''c'', ''a''] @ ''x'' # []"
  by (simp add: Trim_def is_space_def is_continuation_def)

lemma toolong_chars: "length (SplitUTF8StringToChars (Trim ''toolong'')) = 7"
  by (simp add: Trim_def is_space_def is_continuation_def)

lemma cax_cat_build: "build_ofst unit_config cat_table [''cax'', ''cat''] = cax_cat_fst"
  using cax_chars
  by (simp add: build_ofst_loop cat_chars unit_config_def cat_table_def cax_cat_fst_def
        eval_build)

lemma cax_cat_compiled:
  "[''cax'', ''cat''] = take (nat (max_contexts unit_config))
       (filter (\<lambda>c. length c \<le> max_context_length unit_config) [''cax'', ''cat''])"
  by (simp add: unit_config_def)

lemma cax_known: "\<forall>ch \<in> set [''c'', ''a'']. cat_table ch \<noteq> - 1" "cat_table ''x'' = - 1"
  by (simp_all add: cat_table_def)

lemma empty_build_size: "2 = NumStates (build_ofst unit_config cat_table (take 0 [''cax'', ''cat'']))"
  by (simp add: empty_build two_state_valid)

subsection \<open>The claims about the builder\<close>

text \<open>C8. The automaton before determinization is the result of compiling, in input order,
  the first \<open>max_contexts\<close> phrases of those that pass the length check of line 35, and no
  other phrase: a phrase skipped for its length takes no place among the \<open>max_contexts\<close>, a
  phrase that passes the check takes one whatever its characters (\<open>add_context\<close> stops at an
  unknown character, the count does not look at it), and the phrases after the first
  \<open>max_contexts\<close> counted ones are not compiled.\<close>

theorem count_budget:
  "build_ofst cfg tbl query_contexts
     = foldl (\<lambda>ofst context. add_context cfg tbl 0 1 context ofst) two_state_fst
         (take (nat (max_contexts cfg))
            (filter (\<lambda>context. length context \<le> max_context_length cfg) query_contexts))
   \<and> length (take (nat (max_contexts cfg))
               (filter (\<lambda>context. length context \<le> max_context_length cfg) query_contexts))
       \<le> nat (max_contexts cfg)"
  by (simp add: build_ofst_fold)

text \<open>With \<open>max_contexts = 2\<close> and \<open>max_context_length = 5\<close>: ``toolong'' is skipped and not
  counted, ``cxt'' is counted although x is unknown, and ``at'' comes after the count is
  used up.\<close>

theorem count_budget_witness:
  "build_ofst unit_config cat_table [''cat'', ''toolong'', ''cxt'', ''at'']
     = foldl (\<lambda>ofst context. add_context unit_config cat_table 0 1 context ofst) two_state_fst
         [''cat'', ''cxt'']"
  using count_budget [of unit_config cat_table "[''cat'', ''toolong'', ''cxt'', ''at'']"]
  by (simp add: unit_config_def)

text \<open>C1. Let \<open>compiled\<close> be the phrases that are compiled (see C8) and let the \<open>j\<close>-th of
  them have the \<open>L\<close> characters \<open>chars\<close>, all in the vocabulary; \<open>N\<close> is the number of states
  before this phrase is compiled. Then, in the automaton \<open>G\<close> that is built (before it is
  determinized): the start state is 0 and state 1 is final; the \<open>L - 1\<close> states \<open>N, \<dots>, N + L - 2\<close> exist; the start state has
  the arc on the first character, with weight \<open>context_score\<close>, into state \<open>N\<close> (into the final
  state when \<open>L = 1\<close>); and the state at position \<open>i\<close>, \<open>0 < i < L\<close>, which is state
  \<open>N + i - 1\<close>, has exactly two arcs: the escape arc with label 0 and weight
  \<open>- context_score * i\<close> into the start state, and the arc on character \<open>i\<close> with weight
  \<open>context_score\<close> into the next state of the chain (the final state for the last
  character).\<close>

theorem full_phrase_chain:
  assumes "compiled = take (nat (max_contexts cfg))
                        (filter (\<lambda>c. length c \<le> max_context_length cfg) query_contexts)"
    and "j < length compiled"
    and "chars = SplitUTF8StringToChars (Trim (compiled ! j))"
    and "\<forall>ch \<in> set chars. tbl ch \<noteq> - 1"
    and "N = NumStates (build_ofst cfg tbl (take j compiled))"
    and "G = build_ofst cfg tbl query_contexts"
  shows "fst_start G = 0 \<and> Final G 1 = Inr Weight_One
         \<and> 2 \<le> N \<and> N + (length chars - 1) \<le> NumStates G
         \<and> (chars \<noteq> [] \<longrightarrow>
              \<lparr>ilabel = tbl (chars ! 0), olabel = tbl (chars ! 0), weight = context_score cfg,
               nextstate = (if length chars = 1 then 1 else int N)\<rparr>
                \<in> set (st_arcs (fst_states G ! 0)))
         \<and> (\<forall>i. 0 < i \<and> i < length chars \<longrightarrow>
              fst_states G ! (N + i - 1)
                = \<lparr>st_final = Weight_Zero,
                   st_arcs =
                     [\<lparr>ilabel = 0, olabel = 0, weight = - context_score cfg * real i,
                       nextstate = 0\<rparr>,
                      \<lparr>ilabel = tbl (chars ! i), olabel = tbl (chars ! i),
                       weight = context_score cfg,
                       nextstate = (if i = length chars - 1 then 1 else int (N + i))\<rparr>]\<rparr>)"
proof -
  note ps = phrase_states [OF assms(1,2,3,5,6), unfolded resolved_all [OF assms(4)]]
  have m: "min (length chars) (length chars - 1) = length chars - 1" by simp
  have start: "fst_start G = 0" and final: "Final G 1 = Inr Weight_One"
    unfolding assms(6) by (rule build_ofst_final)+
  have size: "N + (length chars - 1) \<le> NumStates G"
    using ps(2) by (simp only: m)
  have first: "\<lparr>ilabel = tbl (chars ! 0), olabel = tbl (chars ! 0), weight = context_score cfg,
               nextstate = (if length chars = 1 then 1 else int N)\<rparr>
                \<in> set (st_arcs (fst_states G ! 0))" if "chars \<noteq> []"
  proof -
    from that have "0 < length chars" by simp
    then have "(0 < length chars - 1) = (length chars \<noteq> 1)" by arith
    with ps(3) chain_arcs_first [OF that, of cfg tbl 0 1 "length chars" N]
    show ?thesis by auto
  qed
  have inner: "fst_states G ! (N + i - 1)
                = \<lparr>st_final = Weight_Zero,
                   st_arcs =
                     [\<lparr>ilabel = 0, olabel = 0, weight = - context_score cfg * real i,
                       nextstate = 0\<rparr>,
                      \<lparr>ilabel = tbl (chars ! i), olabel = tbl (chars ! i),
                       weight = context_score cfg,
                       nextstate = (if i = length chars - 1 then 1 else int (N + i))\<rparr>]\<rparr>"
    if "0 < i \<and> i < length chars" for i
  proof -
    from that have i: "0 < i" "i < length chars" by simp_all
    then have le: "i \<le> min (length chars) (length chars - 1)" by simp
    from i have "(i < length chars - 1) = (i \<noteq> length chars - 1)" by arith
    with ps(4) [OF i(1) le] chain_arcs_inner [OF i, of cfg tbl 0 1 "length chars" N]
    show ?thesis by simp
  qed
  from start final ps(1) size first inner show ?thesis by blast
qed

text \<open>The phrase ``cat'' with the bonus 1: the path \<open>0 \<rightarrow> 2 \<rightarrow> 3 \<rightarrow> 1\<close> on the labels 3, 4, 5
  with weights 1, 1, 1, and the escape arcs \<open>2 \<rightarrow> 0\<close> of weight \<open>- 1\<close> and \<open>3 \<rightarrow> 0\<close> of weight
  \<open>- 2\<close>.\<close>

theorem full_phrase_chain_witness:
  "build_ofst unit_config cat_table [''cat''] = cat_fst
   \<and> fst_start cat_fst = 0 \<and> Final cat_fst 1 = Inr Weight_One
   \<and> \<lparr>ilabel = 3, olabel = 3, weight = 1, nextstate = 2\<rparr> \<in> set (st_arcs (fst_states cat_fst ! 0))
   \<and> fst_states cat_fst ! 2
       = \<lparr>st_final = Weight_Zero,
          st_arcs = [\<lparr>ilabel = 0, olabel = 0, weight = - 1, nextstate = 0\<rparr>,
                     \<lparr>ilabel = 4, olabel = 4, weight = 1, nextstate = 3\<rparr>]\<rparr>
   \<and> fst_states cat_fst ! 3
       = \<lparr>st_final = Weight_Zero,
          st_arcs = [\<lparr>ilabel = 0, olabel = 0, weight = - 2, nextstate = 0\<rparr>,
                     \<lparr>ilabel = 5, olabel = 5, weight = 1, nextstate = 1\<rparr>]\<rparr>"
proof -
  have compiled: "[''cat''] = take (nat (max_contexts unit_config))
                    (filter (\<lambda>c. length c \<le> max_context_length unit_config) [''cat''])"
    by (simp add: unit_config_def)
  have j: "0 < length [''cat'']" by simp
  have chars: "[''c'', ''a'', ''t''] = SplitUTF8StringToChars (Trim ([''cat''] ! 0))"
    by (simp add: cat_chars)
  have known: "\<forall>ch \<in> set [''c'', ''a'', ''t'']. cat_table ch \<noteq> - 1"
    by (simp add: cat_table_def)
  have N: "2 = NumStates (build_ofst unit_config cat_table (take 0 [''cat'']))"
    by (simp add: empty_build two_state_fst_def NumStates_def)
  have G: "cat_fst = build_ofst unit_config cat_table [''cat'']"
    by (simp add: cat_build)
  note inst = full_phrase_chain [OF compiled j chars known N G]
  from inst have "fst_start cat_fst = 0" "Final cat_fst 1 = Inr Weight_One" by simp_all
  moreover from inst
  have "\<lparr>ilabel = 3, olabel = 3, weight = 1, nextstate = 2\<rparr> \<in> set (st_arcs (fst_states cat_fst ! 0))"
    by (simp add: cat_table_def unit_config_def)
  moreover from inst have inner: "\<forall>i. 0 < i \<and> i < 3 \<longrightarrow>
              fst_states cat_fst ! (2 + i - 1)
                = \<lparr>st_final = Weight_Zero,
                   st_arcs =
                     [\<lparr>ilabel = 0, olabel = 0, weight = - context_score unit_config * real i,
                       nextstate = 0\<rparr>,
                      \<lparr>ilabel = cat_table ([''c'', ''a'', ''t''] ! i),
                       olabel = cat_table ([''c'', ''a'', ''t''] ! i),
                       weight = context_score unit_config,
                       nextstate = (if i = 3 - 1 then 1 else int (2 + i))\<rparr>]\<rparr>"
    by simp
  from inner [rule_format, of 1] inner [rule_format, of 2]
  have "fst_states cat_fst ! 2
       = \<lparr>st_final = Weight_Zero,
          st_arcs = [\<lparr>ilabel = 0, olabel = 0, weight = - 1, nextstate = 0\<rparr>,
                     \<lparr>ilabel = 4, olabel = 4, weight = 1, nextstate = 3\<rparr>]\<rparr>"
    "fst_states cat_fst ! 3
       = \<lparr>st_final = Weight_Zero,
          st_arcs = [\<lparr>ilabel = 0, olabel = 0, weight = - 2, nextstate = 0\<rparr>,
                     \<lparr>ilabel = 5, olabel = 5, weight = 1, nextstate = 1\<rparr>]\<rparr>"
    by (simp_all add: cat_table_def unit_config_def)
  ultimately show ?thesis using cat_build by simp
qed

text \<open>C4, as stated, fails: the automaton is reset only when the list of phrases that is
  passed in is empty (line 19). A list whose only phrase is skipped for its length is not
  empty, and the object then holds the determinized automaton of two states and no arc.\<close>

theorem absent_iff_counterexample:
  "max_context_length unit_config < length ''toolong''
   \<and> BuildContextGraph id [''toolong''] (Some cat_table) no_object
       = Inr \<lparr>cg_config = unit_config, cg_symbol_table = Some cat_table,
              cg_graph = Some two_state_fst\<rparr>"
  by (simp add: BuildContextGraph_def no_object_def build_ofst_loop unit_config_def)

text \<open>C4, amended. After a call that returns, the object holds no automaton exactly when
  the list of phrases that was passed in is empty, before any phrase is skipped; a list that
  is not empty gives an automaton, also when none of its phrases is compiled.\<close>

theorem absent_iff_empty_input:
  assumes "BuildContextGraph Determinize query_contexts (Some tbl) this = Inr this'"
  shows "cg_graph this' = None \<longleftrightarrow> query_contexts = []"
  using assms by (auto simp: BuildContextGraph_def split: if_splits)

theorem absent_iff_empty_input_witness:
  "(cg_graph \<lparr>cg_config = unit_config, cg_symbol_table = Some cat_table,
              cg_graph = Some two_state_fst\<rparr> = None) = ([''toolong''] = [])
   \<and> (cg_graph \<lparr>cg_config = unit_config, cg_symbol_table = Some cat_table,
                cg_graph = None\<rparr> = None) = (([] :: string list) = [])"
proof -
  have one: "BuildContextGraph id [''toolong''] (Some cat_table) no_object
       = Inr \<lparr>cg_config = unit_config, cg_symbol_table = Some cat_table,
              cg_graph = Some two_state_fst\<rparr>"
    by (simp add: BuildContextGraph_def no_object_def build_ofst_loop unit_config_def)
  have two: "BuildContextGraph id [] (Some cat_table) no_object
       = Inr \<lparr>cg_config = unit_config, cg_symbol_table = Some cat_table, cg_graph = None\<rparr>"
    by (simp add: BuildContextGraph_def no_object_def)
  from absent_iff_empty_input [OF one] absent_iff_empty_input [OF two]
  show ?thesis by blast
qed

text \<open>C6. A phrase with more characters than \<open>max_context_length\<close> is skipped in full: the
  automaton is the one built from the list without the phrase, so the phrase adds no state
  and no arc and takes no place in the count. (The check of line 35 is on the size of the
  string, which is at least the number of characters.) By contrast, a phrase within the
  limits that stops at an unknown character after the resolved characters \<open>pre\<close> adds one
  state for each character of \<open>pre\<close>.\<close>

theorem long_phrase_skipped:
  assumes "max_context_length cfg < length (SplitUTF8StringToChars (Trim context))"
  shows "build_ofst cfg tbl (before @ context # after) = build_ofst cfg tbl (before @ after)
         \<and> (\<forall>c pre bad post.
               SplitUTF8StringToChars (Trim c) = pre @ bad # post
               \<and> (\<forall>ch \<in> set pre. tbl ch \<noteq> - 1) \<and> tbl bad = - 1
               \<and> length c \<le> max_context_length cfg \<and> 0 < max_contexts cfg \<longrightarrow>
               NumStates (build_ofst cfg tbl [c]) = NumStates (build_ofst cfg tbl []) + length pre)"
proof (intro conjI allI impI)
  from assms token_count_le_size [of "context"]
  have "\<not> length context \<le> max_context_length cfg" by simp
  then have "filter (\<lambda>c. length c \<le> max_context_length cfg) (before @ context # after)
               = filter (\<lambda>c. length c \<le> max_context_length cfg) (before @ after)"
    by (rule filter_skip)
  then show "build_ofst cfg tbl (before @ context # after) = build_ofst cfg tbl (before @ after)"
    unfolding build_ofst_fold by (rule arg_cong)
next
  fix c pre bad post
  assume "SplitUTF8StringToChars (Trim c) = pre @ bad # post
               \<and> (\<forall>ch \<in> set pre. tbl ch \<noteq> - 1) \<and> tbl bad = - 1
               \<and> length c \<le> max_context_length cfg \<and> 0 < max_contexts cfg"
  then have "NumStates (build_ofst cfg tbl [c]) = 2 + length pre"
    by (intro unknown_token_states) blast+
  then show "NumStates (build_ofst cfg tbl [c]) = NumStates (build_ofst cfg tbl []) + length pre"
    by (simp add: empty_build two_state_valid)
qed

text \<open>``toolong'' has 7 characters and the limit is 5: the automaton of ``cat'' and
  ``toolong'' is the one of ``cat''. The phrase ``cax'' keeps the two states of ``ca''.\<close>

theorem long_phrase_skipped_witness:
  "build_ofst unit_config cat_table [''cat'', ''toolong''] = cat_fst
   \<and> NumStates (build_ofst unit_config cat_table [''cax''])
       = NumStates (build_ofst unit_config cat_table []) + 2"
proof -
  have long: "max_context_length unit_config < length (SplitUTF8StringToChars (Trim ''toolong''))"
    by (simp add: toolong_chars unit_config_def)
  note inst = long_phrase_skipped [OF long, of cat_table "[''cat'']" "[]"]
  from inst have "build_ofst unit_config cat_table [''cat'', ''toolong''] = cat_fst"
    by (simp add: cat_build)
  moreover
  have "SplitUTF8StringToChars (Trim ''cax'') = [''c'', ''a''] @ ''x'' # []
        \<and> (\<forall>ch \<in> set [''c'', ''a'']. cat_table ch \<noteq> - 1) \<and> cat_table ''x'' = - 1
        \<and> length ''cax'' \<le> max_context_length unit_config \<and> 0 < max_contexts unit_config"
    using cax_chars cax_known by (simp add: unit_config_def)
  with inst have "NumStates (build_ofst unit_config cat_table [''cax''])
       = NumStates (build_ofst unit_config cat_table []) + length [''c'', ''a'']"
    by blast
  ultimately show ?thesis by simp
qed

text \<open>C7. Let the \<open>j\<close>-th compiled phrase have the characters \<open>pre @ bad # post\<close>, where
  \<open>pre\<close> is in the vocabulary and \<open>bad\<close> is not, and let \<open>N\<close> be the number of states before
  the phrase. Then the automaton \<open>G\<close> that is built (before it is determinized) is the result of running the loop over
  the characters on \<open>pre\<close> alone (with the length of the whole phrase) and of compiling the
  phrases that follow: \<open>bad\<close> and \<open>post\<close> leave nothing, and the loop over the phrases goes
  on. The arcs made for \<open>pre\<close> are in \<open>G\<close>: the arc on the first character from the start
  state into state \<open>N\<close>, and for \<open>0 < i < length pre\<close> the escape arc and the arc on
  character \<open>i\<close> out of state \<open>N + i - 1\<close>. With a symbol table, the call returns without an
  error whatever the phrases are.\<close>

theorem unknown_token_truncates:
  assumes "compiled = take (nat (max_contexts cfg))
                        (filter (\<lambda>c. length c \<le> max_context_length cfg) query_contexts)"
    and "j < length compiled"
    and "SplitUTF8StringToChars (Trim (compiled ! j)) = pre @ bad # post"
    and "\<forall>ch \<in> set pre. tbl ch \<noteq> - 1" and "tbl bad = - 1"
    and "N = NumStates (build_ofst cfg tbl (take j compiled))"
    and "G = build_ofst cfg tbl query_contexts"
  shows "G = foldl (\<lambda>ofst c. add_context cfg tbl 0 1 c ofst)
               (add_chars cfg tbl 0 1 (length (pre @ bad # post)) pre 0 0
                  (build_ofst cfg tbl (take j compiled)))
               (drop (Suc j) compiled)
         \<and> (pre \<noteq> [] \<longrightarrow>
              \<lparr>ilabel = tbl (pre ! 0), olabel = tbl (pre ! 0), weight = context_score cfg,
               nextstate = int N\<rparr> \<in> set (st_arcs (fst_states G ! 0)))
         \<and> (\<forall>i. 0 < i \<and> i < length pre \<longrightarrow>
              fst_states G ! (N + i - 1)
                = \<lparr>st_final = Weight_Zero,
                   st_arcs =
                     [\<lparr>ilabel = 0, olabel = 0, weight = - context_score cfg * real i,
                       nextstate = 0\<rparr>,
                      \<lparr>ilabel = tbl (pre ! i), olabel = tbl (pre ! i),
                       weight = context_score cfg, nextstate = int (N + i)\<rparr>]\<rparr>)
         \<and> (\<forall>Determinize this.
               \<exists>this'. BuildContextGraph Determinize query_contexts (Some tbl) this = Inr this')"
proof -
  let ?chars = "pre @ bad # post"
  have chars: "?chars = SplitUTF8StringToChars (Trim (compiled ! j))"
    using assms(3) by simp
  note ps = phrase_states [OF assms(1,2) chars assms(6,7),
                           unfolded resolved_stop [OF assms(4,5)]]
  have m: "min (length pre) (length ?chars - 1) = length pre" by simp
  have "add_context cfg tbl 0 1 (compiled ! j) (build_ofst cfg tbl (take j compiled))
          = add_chars cfg tbl 0 1 (length ?chars) pre 0 0 (build_ofst cfg tbl (take j compiled))"
    by (simp add: add_context_def assms(3) add_chars_stop [OF assms(4,5)] del: add_chars.simps)
  with build_ofst_split [OF assms(1,2), of tbl]
  have whole: "G = foldl (\<lambda>ofst c. add_context cfg tbl 0 1 c ofst)
               (add_chars cfg tbl 0 1 (length ?chars) pre 0 0
                  (build_ofst cfg tbl (take j compiled)))
               (drop (Suc j) compiled)"
    by (simp add: assms(7))
  have first: "\<lparr>ilabel = tbl (pre ! 0), olabel = tbl (pre ! 0), weight = context_score cfg,
               nextstate = int N\<rparr> \<in> set (st_arcs (fst_states G ! 0))" if "pre \<noteq> []"
    using ps(3) chain_arcs_first [OF that, of cfg tbl 0 1 "length ?chars" N] that
    by auto
  have inner: "fst_states G ! (N + i - 1)
                = \<lparr>st_final = Weight_Zero,
                   st_arcs =
                     [\<lparr>ilabel = 0, olabel = 0, weight = - context_score cfg * real i,
                       nextstate = 0\<rparr>,
                      \<lparr>ilabel = tbl (pre ! i), olabel = tbl (pre ! i),
                       weight = context_score cfg, nextstate = int (N + i)\<rparr>]\<rparr>"
    if "0 < i \<and> i < length pre" for i
  proof -
    from that have i: "0 < i" "i < length pre" by simp_all
    then have le: "i \<le> min (length pre) (length ?chars - 1)" by simp
    from ps(4) [OF i(1) le] chain_arcs_inner [OF i, of cfg tbl 0 1 "length ?chars" N] i
    show ?thesis by simp
  qed
  from whole first inner BuildContextGraph_returns show ?thesis by blast
qed

text \<open>The phrases ``cax'' and ``cat'': the arcs of ``ca'' stay, and ``cat'' is compiled
  after them.\<close>

theorem unknown_token_truncates_witness:
  "cax_cat_fst = foldl (\<lambda>ofst c. add_context unit_config cat_table 0 1 c ofst)
                   (add_chars unit_config cat_table 0 1 3 [''c'', ''a''] 0 0 two_state_fst)
                   [''cat'']
   \<and> \<lparr>ilabel = 3, olabel = 3, weight = 1, nextstate = 2\<rparr>
        \<in> set (st_arcs (fst_states cax_cat_fst ! 0))
   \<and> fst_states cax_cat_fst ! 2
       = \<lparr>st_final = Weight_Zero,
          st_arcs = [\<lparr>ilabel = 0, olabel = 0, weight = - 1, nextstate = 0\<rparr>,
                     \<lparr>ilabel = 4, olabel = 4, weight = 1, nextstate = 3\<rparr>]\<rparr>
   \<and> BuildContextGraph id [''cax'', ''cat''] (Some cat_table) no_object
       = Inr \<lparr>cg_config = unit_config, cg_symbol_table = Some cat_table,
              cg_graph = Some cax_cat_fst\<rparr>"
proof -
  have chars: "SplitUTF8StringToChars (Trim ([''cax'', ''cat''] ! 0)) = [''c'', ''a''] @ ''x'' # []"
    using cax_chars by simp
  have j: "0 < length [''cax'', ''cat'']" by simp
  note inst = unknown_token_truncates [OF cax_cat_compiled j chars cax_known empty_build_size
                cax_cat_build [symmetric]]
  from inst have "cax_cat_fst = foldl (\<lambda>ofst c. add_context unit_config cat_table 0 1 c ofst)
                   (add_chars unit_config cat_table 0 1 3 [''c'', ''a''] 0 0 two_state_fst)
                   [''cat'']"
    by (simp add: empty_build numeral_3_eq_3 del: add_chars.simps foldl_Cons)
  moreover from inst
  have "\<lparr>ilabel = 3, olabel = 3, weight = 1, nextstate = 2\<rparr>
          \<in> set (st_arcs (fst_states cax_cat_fst ! 0))"
    by (simp add: cat_table_def unit_config_def)
  moreover from inst
  have "\<forall>i. 0 < i \<and> i < length [''c'', ''a''] \<longrightarrow>
              fst_states cax_cat_fst ! (2 + i - 1)
                = \<lparr>st_final = Weight_Zero,
                   st_arcs =
                     [\<lparr>ilabel = 0, olabel = 0, weight = - context_score unit_config * real i,
                       nextstate = 0\<rparr>,
                      \<lparr>ilabel = cat_table ([''c'', ''a''] ! i),
                       olabel = cat_table ([''c'', ''a''] ! i),
                       weight = context_score unit_config, nextstate = int (2 + i)\<rparr>]\<rparr>"
    by blast
  from this [rule_format, of 1]
  have "fst_states cax_cat_fst ! 2
       = \<lparr>st_final = Weight_Zero,
          st_arcs = [\<lparr>ilabel = 0, olabel = 0, weight = - 1, nextstate = 0\<rparr>,
                     \<lparr>ilabel = 4, olabel = 4, weight = 1, nextstate = 3\<rparr>]\<rparr>"
    by (simp add: cat_table_def unit_config_def)
  moreover from inst
  obtain this' where "BuildContextGraph id [''cax'', ''cat''] (Some cat_table) no_object = Inr this'"
    by blast
  then have "BuildContextGraph id [''cax'', ''cat''] (Some cat_table) no_object
       = Inr \<lparr>cg_config = unit_config, cg_symbol_table = Some cat_table,
              cg_graph = Some cax_cat_fst\<rparr>"
    by (simp add: BuildContextGraph_def no_object_def cax_cat_build)
  ultimately show ?thesis by blast
qed

text \<open>C9. In the situation of C7 with at least one resolved character, the state that the
  kept prefix reaches, \<open>N + length pre - 1\<close>, is the target of the arc on the last character
  of \<open>pre\<close> and has no arc at all in the automaton that is built (before it is determinized):
  the escape arc of weight
  \<open>- context_score * length pre\<close> would be added by the iteration that stops at \<open>bad\<close>.\<close>

theorem truncated_prefix_state_has_no_arcs:
  assumes "compiled = take (nat (max_contexts cfg))
                        (filter (\<lambda>c. length c \<le> max_context_length cfg) query_contexts)"
    and "j < length compiled"
    and "SplitUTF8StringToChars (Trim (compiled ! j)) = pre @ bad # post"
    and "pre \<noteq> []" and "\<forall>ch \<in> set pre. tbl ch \<noteq> - 1" and "tbl bad = - 1"
    and "N = NumStates (build_ofst cfg tbl (take j compiled))"
    and "G = build_ofst cfg tbl query_contexts"
  shows "N + length pre - 1 < NumStates G
         \<and> fst_states G ! (N + length pre - 1) = \<lparr>st_final = Weight_Zero, st_arcs = []\<rparr>
         \<and> \<lparr>ilabel = tbl (last pre), olabel = tbl (last pre), weight = context_score cfg,
            nextstate = int (N + length pre - 1)\<rparr>
             \<in> set (st_arcs (fst_states G ! (if length pre = 1 then 0 else N + length pre - 2)))"
proof -
  let ?chars = "pre @ bad # post"
  let ?k = "length pre"
  have chars: "?chars = SplitUTF8StringToChars (Trim (compiled ! j))"
    using assms(3) by simp
  note ps = phrase_states [OF assms(1,2) chars assms(7,8),
                           unfolded resolved_stop [OF assms(5,6)]]
  from assms(4) have k: "0 < ?k" by simp
  have m: "min ?k (length ?chars - 1) = ?k" by simp
  from ps(2) k have size: "N + ?k - 1 < NumStates G"
    unfolding m by arith
  have le: "?k \<le> min ?k (length ?chars - 1)" by simp
  from ps(4) [OF k le] have none: "fst_states G ! (N + ?k - 1) = \<lparr>st_final = Weight_Zero, st_arcs = []\<rparr>"
    by (simp add: chain_arcs_end)
  have into: "\<lparr>ilabel = tbl (last pre), olabel = tbl (last pre), weight = context_score cfg,
            nextstate = int (N + ?k - 1)\<rparr>
             \<in> set (st_arcs (fst_states G ! (if ?k = 1 then 0 else N + ?k - 2)))"
  proof (cases "?k = 1")
    case True
    with assms(4) have "last pre = pre ! 0" by (simp add: last_conv_nth)
    with True ps(3) chain_arcs_first [OF assms(4), of cfg tbl 0 1 "length ?chars" N]
    show ?thesis by auto
  next
    case False
    with k have i: "0 < ?k - 1" "?k - 1 < ?k" by arith+
    then have le': "?k - 1 \<le> min ?k (length ?chars - 1)" by simp
    from assms(4) have last: "last pre = pre ! (?k - 1)" by (simp add: last_conv_nth)
    from False k have idx: "N + (?k - 1) - 1 = N + ?k - 2" "N + (?k - 1) = N + ?k - 1" by arith+
    from ps(4) [OF i(1) le'] chain_arcs_inner [OF i, of cfg tbl 0 1 "length ?chars" N]
    have "fst_states G ! (N + ?k - 2)
            = \<lparr>st_final = Weight_Zero,
               st_arcs =
                 [\<lparr>ilabel = 0, olabel = 0, weight = - context_score cfg * real (?k - 1),
                   nextstate = 0\<rparr>,
                  \<lparr>ilabel = tbl (last pre), olabel = tbl (last pre),
                   weight = context_score cfg, nextstate = int (N + ?k - 1)\<rparr>]\<rparr>"
      using i by (simp add: idx last numeral_2_eq_2)
    with False show ?thesis by simp
  qed
  from size none into show ?thesis by blast
qed

text \<open>State 3 of \<open>cax_cat_fst\<close>, reached by ``ca'', has no arcs.\<close>

theorem truncated_prefix_state_has_no_arcs_witness:
  "(3::nat) < NumStates cax_cat_fst
   \<and> fst_states cax_cat_fst ! 3 = \<lparr>st_final = Weight_Zero, st_arcs = []\<rparr>
   \<and> \<lparr>ilabel = 4, olabel = 4, weight = 1, nextstate = 3\<rparr>
        \<in> set (st_arcs (fst_states cax_cat_fst ! 2))"
proof -
  have chars: "SplitUTF8StringToChars (Trim ([''cax'', ''cat''] ! 0)) = [''c'', ''a''] @ ''x'' # []"
    using cax_chars by simp
  have j: "0 < length [''cax'', ''cat'']" by simp
  have pre: "[''c'', ''a''] \<noteq> []" by simp
  from truncated_prefix_state_has_no_arcs [OF cax_cat_compiled j chars pre cax_known
         empty_build_size cax_cat_build [symmetric]]
  show ?thesis by (simp add: cat_table_def unit_config_def)
qed

end
